theory Spec2Isabelle
  imports Main "HOL-Library.Word"
begin

section \<open>Solidity value types\<close>

text \<open>
  The two contracts, \<^verbatim>\<open>contracts/Token.sol\<close> and \<^verbatim>\<open>TokenFaucet\<close>, are written for
  Solidity 0.8.20: \<^verbatim>\<open>uint256\<close> arithmetic is checked (an overflow or underflow aborts the
  call with \<^verbatim>\<open>Panic(0x11)\<close>), a failing \<^verbatim>\<open>require\<close> aborts it with a reason string, and a
  mapping is a total function whose absent entries read as zero.

  \<^verbatim>\<open>block.timestamp\<close> has the Solidity type \<^verbatim>\<open>uint256\<close>; the value comes from the block
  header, where it is a 64-bit quantity, so the model takes it as a 64-bit word and widens
  it where the contract reads it.
\<close>

type_synonym address = "160 word"
type_synonym uint256 = "256 word"
type_synonym timestamp = "64 word"

datatype error = Revert string | Panic

datatype event =
    Transfer address address uint256
  | MinterChanged address
  | TokensClaimed address uint256 uint256
  | FaucetPaused bool

text \<open>The failure kinds of the specification, as the reason strings the contracts use.\<close>

abbreviation E_FaucetPaused :: error where
  "E_FaucetPaused \<equiv> Revert ''Faucet is currently paused''"

abbreviation E_CooldownActive :: error where
  "E_CooldownActive \<equiv> Revert ''Must wait 24 hours between claims''"

abbreviation E_LifetimeLimitReached :: error where
  "E_LifetimeLimitReached \<equiv> Revert ''Lifetime claim limit reached''"

abbreviation E_ReentrantCall :: error where
  "E_ReentrantCall \<equiv> Revert ''ReentrancyGuard: reentrant call''"

abbreviation E_Unauthorized_mint :: error where
  "E_Unauthorized_mint \<equiv> Revert ''Only minter can mint tokens''"

abbreviation E_ZeroAddress_mint :: error where
  "E_ZeroAddress_mint \<equiv> Revert ''Cannot mint to zero address''"

abbreviation E_SupplyExceeded :: error where
  "E_SupplyExceeded \<equiv> Revert ''Exceeds maximum supply''"

abbreviation E_Unauthorized_pause :: error where
  "E_Unauthorized_pause \<equiv> Revert ''Only admin can pause faucet''"

definition checked_add :: "uint256 \<Rightarrow> uint256 \<Rightarrow> error + uint256" where
  "checked_add a b = (if unat a + unat b < 2 ^ 256 then Inr (a + b) else Inl Panic)"

definition checked_sub :: "uint256 \<Rightarrow> uint256 \<Rightarrow> error + uint256" where
  "checked_sub a b = (if unat b \<le> unat a then Inr (a - b) else Inl Panic)"

definition block_timestamp :: "timestamp \<Rightarrow> uint256" where
  "block_timestamp now = ucast now"

section \<open>Contract storage\<close>

text \<open>
  \<^verbatim>\<open>Token\<close> keeps the balance table and the total supply of the ERC-20 base contract, the
  \<^verbatim>\<open>minter\<close> and the owner of \<^verbatim>\<open>Ownable\<close>. \<^verbatim>\<open>TokenFaucet\<close> keeps \<^verbatim>\<open>admin\<close>, \<^verbatim>\<open>paused\<close>, the two
  per-address mappings and the status flag of \<^verbatim>\<open>ReentrancyGuard\<close> (\<open>entered\<close>). The world is
  the faucet, the token instance its \<^verbatim>\<open>token\<close> reference points to, the faucet's own
  address (the \<^verbatim>\<open>msg.sender\<close> the token sees when the faucet calls it) and the ordered log
  of emitted events.
\<close>

record token_state =
  balances :: "address \<Rightarrow> uint256"
  totalSupply :: uint256
  minter :: address
  owner :: address

record faucet_state =
  admin :: address
  paused :: bool
  lastClaimAt :: "address \<Rightarrow> uint256"
  totalClaimed :: "address \<Rightarrow> uint256"
  entered :: bool

record world =
  token :: token_state
  faucet :: faucet_state
  this_faucet :: address
  events :: "event list"

section \<open>Token.sol\<close>

definition MAX_SUPPLY :: uint256 where
  "MAX_SUPPLY = 100000 * 10 ^ 18"

definition Token_constructor :: "address \<Rightarrow> address \<Rightarrow> error + token_state" where
  "Token_constructor sender minter0 =
     (if minter0 = 0 then Inl (Revert ''Minter cannot be zero address'')
      else Inr \<lparr>balances = (\<lambda>_. 0), totalSupply = 0, minter = minter0, owner = sender\<rparr>)"

text \<open>
  Modelled from the spec: the \<^verbatim>\<open>onlyOwner\<close> modifier comes from the imported \<^verbatim>\<open>Ownable\<close>
  contract, which is not part of the sources. The specification says of \<^verbatim>\<open>setMinter\<close>:
  ``owner-only; fails with \<^verbatim>\<open>Unauthorized\<close> otherwise''. The owner is the account that deployed
  the token; the reason string is the library's.
\<close>

definition onlyOwner :: "world \<Rightarrow> address \<Rightarrow> (error + world) \<Rightarrow> error + world" where
  "onlyOwner s sender body =
     (if sender \<noteq> owner (token s) then Inl (Revert ''Ownable: caller is not the owner'')
      else body)"

definition setMinter :: "world \<Rightarrow> address \<Rightarrow> address \<Rightarrow> error + world" where
  "setMinter s sender newMinter =
     onlyOwner s sender
       (if newMinter = 0 then Inl (Revert ''Minter cannot be zero address'')
        else Inr (s\<lparr>token := (token s)\<lparr>minter := newMinter\<rparr>,
                    events := events s @ [MinterChanged newMinter]\<rparr>))"

text \<open>
  Modelled from the spec: the internal \<^verbatim>\<open>_mint\<close> of the imported ERC-20 base contract is
  not part of the sources. The specification says of a successful mint that it
  ``credits \<^verbatim>\<open>to\<close> by \<^verbatim>\<open>amount\<close> and increases total supply by the same amount; emits a
  transfer-style audit event with sender = null account''.
\<close>

definition ERC20_mint :: "world \<Rightarrow> address \<Rightarrow> uint256 \<Rightarrow> world" where
  "ERC20_mint s account amount =
     s\<lparr>token := (token s)
          \<lparr>balances := (balances (token s))(account := balances (token s) account + amount),
           totalSupply := totalSupply (token s) + amount\<rparr>,
       events := events s @ [Transfer 0 account amount]\<rparr>"

definition mint :: "world \<Rightarrow> address \<Rightarrow> address \<Rightarrow> uint256 \<Rightarrow> error + world" where
  "mint s sender to amount =
     (if sender \<noteq> minter (token s) then Inl (Revert ''Only minter can mint tokens'')
      else if to = 0 then Inl (Revert ''Cannot mint to zero address'')
      else case checked_add (totalSupply (token s)) amount of
             Inl e \<Rightarrow> Inl e
           | Inr supply \<Rightarrow>
               if \<not> supply \<le> MAX_SUPPLY then Inl (Revert ''Exceeds maximum supply'')
               else Inr (ERC20_mint s to amount))"

section \<open>TokenFaucet\<close>

definition FAUCET_AMOUNT :: uint256 where
  "FAUCET_AMOUNT = 100 * 10 ^ 18"

definition COOLDOWN_TIME :: uint256 where
  "COOLDOWN_TIME = 24 * 3600"

definition MAX_CLAIM_AMOUNT :: uint256 where
  "MAX_CLAIM_AMOUNT = 1000 * 10 ^ 18"

definition TokenFaucet_constructor :: "address \<Rightarrow> address \<Rightarrow> error + faucet_state" where
  "TokenFaucet_constructor sender token_address =
     (if token_address = 0 then Inl (Revert ''Token address cannot be zero'')
      else Inr \<lparr>admin = sender, paused = False, lastClaimAt = (\<lambda>_. 0),
                totalClaimed = (\<lambda>_. 0), entered = False\<rparr>)"

text \<open>
  The body of \<^verbatim>\<open>requestTokens\<close>: the three \<^verbatim>\<open>require\<close>s in the order of the source, the two
  assignments, the external call \<^verbatim>\<open>token.mint(msg.sender, FAUCET_AMOUNT)\<close> made with the
  faucet as caller, and the event. A failure at any point yields \<open>Inl\<close>: the storage
  written so far is dropped with the rest of the call.
\<close>

definition requestTokens_body :: "world \<Rightarrow> address \<Rightarrow> timestamp \<Rightarrow> error + world" where
  "requestTokens_body s sender now =
     (if paused (faucet s) then Inl (Revert ''Faucet is currently paused'')
      else case checked_add (lastClaimAt (faucet s) sender) COOLDOWN_TIME of
        Inl e \<Rightarrow> Inl e
      | Inr ready \<Rightarrow>
          if \<not> ready \<le> block_timestamp now
          then Inl (Revert ''Must wait 24 hours between claims'')
          else case checked_add (totalClaimed (faucet s) sender) FAUCET_AMOUNT of
            Inl e \<Rightarrow> Inl e
          | Inr wanted \<Rightarrow>
              if \<not> wanted \<le> MAX_CLAIM_AMOUNT
              then Inl (Revert ''Lifetime claim limit reached'')
              else case checked_add (totalClaimed (faucet s) sender) FAUCET_AMOUNT of
                Inl e \<Rightarrow> Inl e
              | Inr claimed \<Rightarrow>
                  (let s1 = s\<lparr>faucet := (faucet s)
                              \<lparr>lastClaimAt := (lastClaimAt (faucet s))
                                                (sender := block_timestamp now),
                               totalClaimed := (totalClaimed (faucet s))(sender := claimed)\<rparr>\<rparr>
                   in case mint s1 (this_faucet s1) sender FAUCET_AMOUNT of
                        Inl e \<Rightarrow> Inl e
                      | Inr s2 \<Rightarrow>
                          Inr (s2\<lparr>events := events s2 @
                                [TokensClaimed sender FAUCET_AMOUNT (block_timestamp now)]\<rparr>)))"

text \<open>
  Modelled from the spec: the \<^verbatim>\<open>nonReentrant\<close> modifier comes from the imported guard
  contract, which is not part of the sources. The specification describes ``a held/released
  execution-lock flag scoped to the single call: set on entry, checked-and-rejected if
  already set, cleared on exit''; a reentrant call fails with \<^verbatim>\<open>ReentrantCall\<close>. The reason
  string is the library's.
\<close>

definition nonReentrant :: "(world \<Rightarrow> error + world) \<Rightarrow> world \<Rightarrow> error + world" where
  "nonReentrant body s =
     (if entered (faucet s) then Inl (Revert ''ReentrancyGuard: reentrant call'')
      else case body (s\<lparr>faucet := (faucet s)\<lparr>entered := True\<rparr>\<rparr>) of
        Inl e \<Rightarrow> Inl e
      | Inr s' \<Rightarrow> Inr (s'\<lparr>faucet := (faucet s')\<lparr>entered := False\<rparr>\<rparr>))"

definition requestTokens :: "world \<Rightarrow> address \<Rightarrow> timestamp \<Rightarrow> error + world" where
  "requestTokens s sender now = nonReentrant (\<lambda>s. requestTokens_body s sender now) s"

definition canClaim :: "world \<Rightarrow> address \<Rightarrow> timestamp \<Rightarrow> error + bool" where
  "canClaim s user now =
     (if paused (faucet s) then Inr False
      else case checked_add (lastClaimAt (faucet s) user) COOLDOWN_TIME of
        Inl e \<Rightarrow> Inl e
      | Inr ready \<Rightarrow>
          if block_timestamp now < ready then Inr False
          else if MAX_CLAIM_AMOUNT \<le> totalClaimed (faucet s) user then Inr False
          else Inr True)"

definition remainingAllowance :: "world \<Rightarrow> address \<Rightarrow> error + uint256" where
  "remainingAllowance s user =
     (case checked_sub MAX_CLAIM_AMOUNT (totalClaimed (faucet s) user) of
        Inl e \<Rightarrow> Inl e
      | Inr remaining \<Rightarrow> Inr (if 0 < remaining then remaining else 0))"

definition isPaused :: "world \<Rightarrow> bool" where
  "isPaused s = paused (faucet s)"

definition setPaused :: "world \<Rightarrow> address \<Rightarrow> bool \<Rightarrow> error + world" where
  "setPaused s sender new_paused =
     (if sender \<noteq> admin (faucet s) then Inl (Revert ''Only admin can pause faucet'')
      else Inr (s\<lparr>faucet := (faucet s)\<lparr>paused := new_paused\<rparr>,
                  events := events s @ [FaucetPaused new_paused]\<rparr>))"

section \<open>Transactions and reachable states\<close>

text \<open>
  A transaction is a sender, the timestamp of its block and one external call of the two
  contracts. A call that fails reverts: the world stays as it was. The deployment runs the
  two constructors; every world reached from a deployment by transactions is reachable.
\<close>

datatype call = RequestTokens | SetPaused bool | Mint address uint256 | SetMinter address

type_synonym tx = "address \<times> timestamp \<times> call"

fun execute :: "world \<Rightarrow> tx \<Rightarrow> error + world" where
  "execute s (sender, now, RequestTokens) = requestTokens s sender now"
| "execute s (sender, now, SetPaused v) = setPaused s sender v"
| "execute s (sender, now, Mint to amount) = mint s sender to amount"
| "execute s (sender, now, SetMinter m) = setMinter s sender m"

definition transact :: "world \<Rightarrow> tx \<Rightarrow> world" where
  "transact s t = (case execute s t of Inl e \<Rightarrow> s | Inr s' \<Rightarrow> s')"

definition run :: "world \<Rightarrow> tx list \<Rightarrow> world" where
  "run s ts = foldl transact s ts"

definition deploy :: "address \<Rightarrow> address \<Rightarrow> address \<Rightarrow> address \<Rightarrow> address \<Rightarrow> error + world" where
  "deploy token_deployer minter0 faucet_deployer token_address faucet_address =
     (case Token_constructor token_deployer minter0 of
        Inl e \<Rightarrow> Inl e
      | Inr t \<Rightarrow>
          (case TokenFaucet_constructor faucet_deployer token_address of
             Inl e \<Rightarrow> Inl e
           | Inr f \<Rightarrow> Inr \<lparr>token = t, faucet = f, this_faucet = faucet_address, events = []\<rparr>))"

inductive reachable :: "world \<Rightarrow> bool" where
  deployed: "deploy d1 m d2 ta fa = Inr s \<Longrightarrow> reachable s"
| step: "reachable s \<Longrightarrow> reachable (transact s t)"

text \<open>
  The sum of all balances, over the finite type of addresses. It has no counterpart in the
  contracts; the conservation property of the ledger is stated with it.
\<close>

definition sum_balances :: "world \<Rightarrow> nat" where
  "sum_balances s = (\<Sum>a\<in>UNIV. unat (balances (token s) a))"

section \<open>Concrete worlds used to exercise the theorems\<close>

text \<open>
  Externally owned accounts, the two contract addresses, and the deployment in which the
  faucet is the token's minter, as the specification describes the wiring.
\<close>

definition alice :: address where "alice = 1001"
definition bob :: address where "bob = 1002"
definition deployer :: address where "deployer = 2001"
definition faucet_address :: address where "faucet_address = 3001"
definition token_address :: address where "token_address = 3002"

definition wired_world :: world where
  "wired_world =
     \<lparr>token = \<lparr>balances = (\<lambda>_. 0), totalSupply = 0, minter = faucet_address,
               owner = deployer\<rparr>,
      faucet = \<lparr>admin = deployer, paused = False, lastClaimAt = (\<lambda>_. 0),
                totalClaimed = (\<lambda>_. 0), entered = False\<rparr>,
      this_faucet = faucet_address, events = []\<rparr>"

text \<open>
  Schedules of claims: \<open>claim_days a d n\<close> lets account \<open>a\<close> claim once a day on the \<open>n\<close>
  days after day \<open>d\<close>; \<open>drain i\<close> lets the accounts \<open>1, \<dots>, i\<close> claim ten times each, one
  account after the other, on consecutive days.
\<close>

definition day :: "nat \<Rightarrow> timestamp" where
  "day n = of_nat (n * 86400)"

definition claim_days :: "address \<Rightarrow> nat \<Rightarrow> nat \<Rightarrow> tx list" where
  "claim_days a d n = map (\<lambda>k. (a, day (d + k), RequestTokens)) [1..<Suc n]"

fun drain :: "nat \<Rightarrow> tx list" where
  "drain 0 = []"
| "drain (Suc i) = drain i @ claim_days (of_nat (Suc i)) (10 * i) 10"

text \<open>
  Worlds reached from the wired deployment: after the accounts \<open>1, \<dots>, 100\<close> have each
  claimed ten times (the whole supply is issued), after \<open>alice\<close> alone has claimed ten
  times, and after one claim of \<open>alice\<close> followed by the owner handing the minter role to
  \<open>bob\<close>. \<open>latecomer\<close> is an account that has never claimed.
\<close>

definition latecomer :: address where "latecomer = 101"

definition drained_world :: world where
  "drained_world = run wired_world (drain 100)"

definition exhausted_world :: world where
  "exhausted_world = run wired_world (claim_days alice 0 10)"

definition handed_over_world :: world where
  "handed_over_world =
     run wired_world [(alice, 86400, RequestTokens), (deployer, 86400, SetMinter bob)]"

definition claimed_world :: world where
  "claimed_world = transact wired_world (alice, day 1, RequestTokens)"

definition paused_world :: world where
  "paused_world = transact exhausted_world (deployer, day 10, SetPaused True)"

definition UINT256_MAX :: uint256 where
  "UINT256_MAX = - 1"

text \<open>
  The world in the middle of a \<^verbatim>\<open>requestTokens\<close> call of \<open>sender\<close> whose three \<^verbatim>\<open>require\<close>s have
  passed: the lock is held and the two assignments to \<^verbatim>\<open>lastClaimAt[msg.sender]\<close> and
  \<^verbatim>\<open>totalClaimed[msg.sender]\<close> are done; \<^verbatim>\<open>token.mint\<close> is called on this world.
\<close>

definition counters_assigned :: "world \<Rightarrow> address \<Rightarrow> timestamp \<Rightarrow> world" where
  "counters_assigned s sender now =
     s\<lparr>faucet := (faucet s)
          \<lparr>entered := True,
           lastClaimAt := (lastClaimAt (faucet s))(sender := block_timestamp now),
           totalClaimed := (totalClaimed (faucet s))
                             (sender := totalClaimed (faucet s) sender + FAUCET_AMOUNT)\<rparr>\<rparr>"

section \<open>Arithmetic of the constants\<close>

lemma unat_FAUCET_AMOUNT: "unat FAUCET_AMOUNT = 100 * 10 ^ 18"
  by (simp add: FAUCET_AMOUNT_def)

lemma unat_MAX_CLAIM_AMOUNT: "unat MAX_CLAIM_AMOUNT = 1000 * 10 ^ 18"
  by (simp add: MAX_CLAIM_AMOUNT_def)

lemma unat_MAX_SUPPLY: "unat MAX_SUPPLY = 100000 * 10 ^ 18"
  by (simp add: MAX_SUPPLY_def)

lemma unat_COOLDOWN_TIME: "unat COOLDOWN_TIME = 86400"
  by (simp add: COOLDOWN_TIME_def)

lemmas unat_consts = unat_FAUCET_AMOUNT unat_MAX_CLAIM_AMOUNT unat_MAX_SUPPLY unat_COOLDOWN_TIME

lemma unat_block_timestamp: "unat (block_timestamp now) = unat now"
  by (simp add: block_timestamp_def unsigned_ucast_eq take_bit_nat_eq_self
        unsigned_less[THEN less_le_trans])

lemma unat_timestamp_bound: "unat (now :: timestamp) < 2 ^ 64"
  using unsigned_less[of now] by simp

lemma checked_add_Inr:
  "checked_add a b = Inr c \<longleftrightarrow> unat a + unat b < 2 ^ 256 \<and> c = a + b"
  by (auto simp: checked_add_def)

lemma unat_add_no_overflow:
  "unat (a :: uint256) + unat b < 2 ^ 256 \<Longrightarrow> unat (a + b) = unat a + unat b"
  using unat_add_lem[of a b] by simp

lemma setPaused_Inr:
  "setPaused s c v = Inr s' \<longleftrightarrow>
     c = admin (faucet s) \<and>
     s' = s\<lparr>faucet := (faucet s)\<lparr>paused := v\<rparr>, events := events s @ [FaucetPaused v]\<rparr>"
  by (auto simp: setPaused_def)

lemma setMinter_Inr:
  "setMinter s c m = Inr s' \<longleftrightarrow>
     c = owner (token s) \<and> m \<noteq> 0 \<and>
     s' = s\<lparr>token := (token s)\<lparr>minter := m\<rparr>, events := events s @ [MinterChanged m]\<rparr>"
  by (auto simp: setMinter_def onlyOwner_def)

lemma mint_Inr:
  "mint s c to amount = Inr s' \<longleftrightarrow>
     c = minter (token s) \<and> to \<noteq> 0 \<and>
     unat (totalSupply (token s)) + unat amount \<le> unat MAX_SUPPLY \<and>
     s' = ERC20_mint s to amount"
proof -
  have small: "unat MAX_SUPPLY < 2 ^ 256" by (simp add: unat_MAX_SUPPLY)
  show ?thesis
    using small
    by (auto simp: mint_def checked_add_def word_le_nat_alt unat_add_no_overflow)
qed

text \<open>The world a successful claim of \<open>a\<close> at time \<open>t\<close> leaves behind.\<close>

lemma requestTokens_Inr:
  "requestTokens s a t = Inr s' \<longleftrightarrow>
     \<not> entered (faucet s) \<and> \<not> paused (faucet s) \<and>
     unat (lastClaimAt (faucet s) a) + 86400 \<le> unat t \<and>
     unat (totalClaimed (faucet s) a) + 100 * 10 ^ 18 \<le> 1000 * 10 ^ 18 \<and>
     this_faucet s = minter (token s) \<and> a \<noteq> 0 \<and>
     unat (totalSupply (token s)) + 100 * 10 ^ 18 \<le> 100000 * 10 ^ 18 \<and>
     s' = s\<lparr>token := (token s)
               \<lparr>balances := (balances (token s))(a := balances (token s) a + FAUCET_AMOUNT),
                totalSupply := totalSupply (token s) + FAUCET_AMOUNT\<rparr>,
            faucet := (faucet s)
               \<lparr>lastClaimAt := (lastClaimAt (faucet s))(a := block_timestamp t),
                totalClaimed := (totalClaimed (faucet s))(a := totalClaimed (faucet s) a + FAUCET_AMOUNT)\<rparr>,
            events := events s @ [Transfer 0 a FAUCET_AMOUNT,
                                  TokensClaimed a FAUCET_AMOUNT (block_timestamp t)]\<rparr>"
  (is "?L \<longleftrightarrow> ?R")
proof
  assume ?L
  then show ?R
    apply (simp add: requestTokens_def nonReentrant_def requestTokens_body_def Let_def split: if_splits sum.splits)
    apply (simp add: checked_add_Inr mint_Inr ERC20_mint_def word_le_nat_alt unat_consts unat_block_timestamp unat_add_no_overflow)
    apply (cases s, cases "faucet s", auto)
    done
next
  assume ?R
  then show ?L
    using unat_timestamp_bound[of t]
    apply (simp add: requestTokens_def nonReentrant_def requestTokens_body_def Let_def)
    apply (simp add: checked_add_def word_le_nat_alt unat_consts unat_block_timestamp unat_add_no_overflow mint_def ERC20_mint_def)
    done
qed

lemma mint_Inl:
  "mint s c to amount = Inl e \<longleftrightarrow>
     (if c \<noteq> minter (token s) then e = E_Unauthorized_mint
      else if to = 0 then e = E_ZeroAddress_mint
      else if \<not> unat (totalSupply (token s)) + unat amount < 2 ^ 256 then e = Panic
      else unat MAX_SUPPLY < unat (totalSupply (token s)) + unat amount \<and> e = E_SupplyExceeded)"
  by (auto simp: mint_def checked_add_def word_le_nat_alt unat_add_no_overflow)

lemma requestTokens_paused:
  "\<not> entered (faucet s) \<Longrightarrow> paused (faucet s) \<Longrightarrow> requestTokens s a t = Inl E_FaucetPaused"
  by (simp add: requestTokens_def nonReentrant_def requestTokens_body_def)

lemma requestTokens_reentrant:
  "entered (faucet s) \<Longrightarrow> requestTokens s a t = Inl E_ReentrantCall"
  by (simp add: requestTokens_def nonReentrant_def)

lemma requestTokens_cooldown:
  "\<not> entered (faucet s) \<Longrightarrow> \<not> paused (faucet s) \<Longrightarrow>
   unat (lastClaimAt (faucet s) a) < 2 ^ 64 \<Longrightarrow>
   unat t < unat (lastClaimAt (faucet s) a) + 86400 \<Longrightarrow>
   requestTokens s a t = Inl E_CooldownActive"
  by (simp add: requestTokens_def nonReentrant_def requestTokens_body_def checked_add_def unat_consts
        word_le_nat_alt unat_add_no_overflow unat_block_timestamp)

lemma requestTokens_lifetime:
  "\<not> entered (faucet s) \<Longrightarrow> \<not> paused (faucet s) \<Longrightarrow>
   unat (lastClaimAt (faucet s) a) + 86400 \<le> unat t \<Longrightarrow>
   unat (totalClaimed (faucet s) a) \<le> 1000 * 10 ^ 18 \<Longrightarrow>
   1000 * 10 ^ 18 < unat (totalClaimed (faucet s) a) + 100 * 10 ^ 18 \<Longrightarrow>
   requestTokens s a t = Inl E_LifetimeLimitReached"
  using unat_timestamp_bound[of t]
  by (simp add: requestTokens_def nonReentrant_def requestTokens_body_def checked_add_def unat_consts
        word_le_nat_alt unat_add_no_overflow unat_block_timestamp)

lemma requestTokens_mint_fails:
  "\<not> entered (faucet s) \<Longrightarrow> \<not> paused (faucet s) \<Longrightarrow>
   unat (lastClaimAt (faucet s) a) + 86400 \<le> unat t \<Longrightarrow>
   unat (totalClaimed (faucet s) a) + 100 * 10 ^ 18 \<le> 1000 * 10 ^ 18 \<Longrightarrow>
   mint s (this_faucet s) a FAUCET_AMOUNT = Inl e \<Longrightarrow>
   requestTokens s a t = Inl e"
  using unat_timestamp_bound[of t]
  by (simp add: requestTokens_def nonReentrant_def requestTokens_body_def checked_add_def unat_consts
        word_le_nat_alt unat_add_no_overflow unat_block_timestamp mint_def
      split: if_splits)

lemma reachable_not_entered: "reachable s \<Longrightarrow> \<not> entered (faucet s)"
proof (induction rule: reachable.induct)
  case (deployed d1 m d2 ta fa s)
  then show ?case
    by (auto simp: deploy_def Token_constructor_def TokenFaucet_constructor_def
          split: sum.splits if_splits)
next
  case (step s t)
  obtain c now k where t: "t = (c, now, k)" by (cases t)
  show ?case
    using step.IH unfolding t
    by (cases k)
       (auto simp: transact_def requestTokens_Inr setPaused_Inr mint_Inr setMinter_Inr
          ERC20_mint_def split: sum.splits)
qed

lemma reachable_lastClaimAt_bound:
  "reachable s \<Longrightarrow> unat (lastClaimAt (faucet s) a) < 2 ^ 64"
proof (induction rule: reachable.induct)
  case (deployed d1 m d2 ta fa s)
  then show ?case
    by (auto simp: deploy_def Token_constructor_def TokenFaucet_constructor_def
          split: sum.splits if_splits)
next
  case (step s t)
  obtain c now k where t: "t = (c, now, k)" by (cases t)
  show ?case
    using step.IH unat_timestamp_bound[of now] unfolding t
    by (cases k)
       (auto simp: transact_def requestTokens_Inr setPaused_Inr mint_Inr setMinter_Inr
          ERC20_mint_def unat_block_timestamp split: sum.splits)
qed

lemma reachable_totalClaimed_steps:
  "reachable s \<Longrightarrow> \<exists>k\<le>10. unat (totalClaimed (faucet s) a) = k * (100 * 10 ^ 18)"
proof (induction rule: reachable.induct)
  case (deployed d1 m d2 ta fa s)
  then show ?case
    by (auto simp: deploy_def Token_constructor_def TokenFaucet_constructor_def
          split: sum.splits if_splits)
next
  case (step s t)
  obtain c now k where t: "t = (c, now, k)" by (cases t)
  from step.IH obtain n where n: "n \<le> 10" "unat (totalClaimed (faucet s) a) = n * (100 * 10 ^ 18)"
    by blast
  show ?case
  proof (cases "\<exists>s'. k = RequestTokens \<and> c = a \<and> requestTokens s a now = Inr s'")
    case True
    then obtain s' where s': "requestTokens s a now = Inr s'" and k: "k = RequestTokens" "c = a"
      by blast
    from s' have le: "unat (totalClaimed (faucet s) a) + 100 * 10 ^ 18 \<le> 1000 * 10 ^ 18"
      and eq: "totalClaimed (faucet s') a = totalClaimed (faucet s) a + FAUCET_AMOUNT"
      by (simp_all add: requestTokens_Inr)
    have tr: "transact s t = s'"
      unfolding t using s' k by (simp add: transact_def)
    have "unat (totalClaimed (faucet s') a) = Suc n * (100 * 10 ^ 18)"
      using le n by (simp add: eq unat_add_no_overflow unat_consts)
    moreover have "Suc n \<le> 10" using le n by simp
    ultimately show ?thesis
      unfolding tr by blast
  next
    case False
    then have "totalClaimed (faucet (transact s t)) a = totalClaimed (faucet s) a"
      unfolding t
      by (cases k)
         (auto simp: transact_def requestTokens_Inr setPaused_Inr mint_Inr setMinter_Inr
            ERC20_mint_def split: sum.splits)
    then show ?thesis using n by auto
  qed
qed


section \<open>Runs and the concrete deployments\<close>

lemma run_Nil: "run s [] = s"
  by (simp add: run_def)

lemma run_Cons: "run s (t # ts) = run (transact s t) ts"
  by (simp add: run_def)

lemma run_append: "run s (ts @ us) = run (run s ts) us"
  by (simp add: run_def)

lemma reachable_run: "reachable s \<Longrightarrow> reachable (run s ts)"
  by (induction ts arbitrary: s) (simp_all add: run_Nil run_Cons reachable.step)

lemma deploy_wired_world:
  "deploy deployer faucet_address deployer token_address faucet_address = Inr wired_world"
  by (simp add: deploy_def Token_constructor_def TokenFaucet_constructor_def wired_world_def
        faucet_address_def token_address_def)

lemma reachable_wired_world: "reachable wired_world"
  by (rule reachable.deployed[OF deploy_wired_world])

lemma first_claim:
  "requestTokens wired_world alice 86400 =
     Inr (wired_world
          \<lparr>token := (token wired_world)
             \<lparr>balances := (\<lambda>_. 0)(alice := FAUCET_AMOUNT), totalSupply := FAUCET_AMOUNT\<rparr>,
           faucet := (faucet wired_world)
             \<lparr>lastClaimAt := (\<lambda>_. 0)(alice := 86400),
              totalClaimed := (\<lambda>_. 0)(alice := FAUCET_AMOUNT)\<rparr>,
           events := [Transfer 0 alice FAUCET_AMOUNT, TokensClaimed alice FAUCET_AMOUNT 86400]\<rparr>)"
  by (simp add: requestTokens_Inr wired_world_def alice_def block_timestamp_def)

section \<open>Conservation of the supply\<close>

lemma sum_fun_upd:
  fixes f :: "address \<Rightarrow> uint256"
  shows "(\<Sum>x\<in>UNIV. unat ((f(a := v)) x)) + unat (f a) = (\<Sum>x\<in>UNIV. unat (f x)) + unat v"
proof -
  have 1: "(\<Sum>x\<in>UNIV. unat ((f(a := v)) x)) = unat v + (\<Sum>x\<in>UNIV - {a}. unat ((f(a := v)) x))"
    using sum.remove[of UNIV a "\<lambda>x. unat ((f(a := v)) x)"] by simp
  have 2: "(\<Sum>x\<in>UNIV. unat (f x)) = unat (f a) + (\<Sum>x\<in>UNIV - {a}. unat (f x))"
    using sum.remove[of UNIV a "\<lambda>x. unat (f x)"] by simp
  have 3: "(\<Sum>x\<in>UNIV - {a}. unat ((f(a := v)) x)) = (\<Sum>x\<in>UNIV - {a}. unat (f x))"
    by (rule sum.cong) auto
  show ?thesis using 1 2 3 by simp
qed

lemma balance_le_sum_balances: "unat (balances (token s) a) \<le> sum_balances s"
  unfolding sum_balances_def
  using sum.remove[of UNIV a "\<lambda>x. unat (balances (token s) x)"] by simp

lemma credit_keeps_supply:
  assumes inv: "sum_balances s = unat (totalSupply (token s))"
    and room: "unat (totalSupply (token s)) + unat amount \<le> unat MAX_SUPPLY"
    and tok: "token s' = (token s)
        \<lparr>balances := (balances (token s))(a := balances (token s) a + amount),
         totalSupply := totalSupply (token s) + amount\<rparr>"
  shows "sum_balances s' = unat (totalSupply (token s'))"
    and "unat (totalSupply (token s')) = unat (totalSupply (token s)) + unat amount"
    and "unat (balances (token s') a) = unat (balances (token s) a) + unat amount"
proof -
  have small: "unat (totalSupply (token s)) + unat amount < 2 ^ 256"
    using room by (simp add: unat_MAX_SUPPLY)
  show sup: "unat (totalSupply (token s')) = unat (totalSupply (token s)) + unat amount"
    using small by (simp add: tok unat_add_no_overflow)
  have "unat (balances (token s) a) \<le> unat (totalSupply (token s))"
    using balance_le_sum_balances[of s a] inv by simp
  then have "unat (balances (token s) a) + unat amount < 2 ^ 256"
    using small by simp
  then show bal: "unat (balances (token s') a) = unat (balances (token s) a) + unat amount"
    by (simp add: tok unat_add_no_overflow)
  have "sum_balances s' + unat (balances (token s) a)
          = sum_balances s + unat (balances (token s) a + amount)"
    unfolding sum_balances_def tok
    using sum_fun_upd[of "balances (token s)" a "balances (token s) a + amount"] by simp
  then show "sum_balances s' = unat (totalSupply (token s'))"
    using bal sup inv by (simp add: tok)
qed

lemma reachable_supply:
  "reachable s \<Longrightarrow>
     sum_balances s = unat (totalSupply (token s)) \<and>
     unat (totalSupply (token s)) \<le> unat MAX_SUPPLY"
proof (induction rule: reachable.induct)
  case (deployed d1 m d2 ta fa s)
  then show ?case
    by (auto simp: deploy_def Token_constructor_def TokenFaucet_constructor_def
          sum_balances_def split: sum.splits if_splits)
next
  case (step s t)
  obtain c now k where t: "t = (c, now, k)" by (cases t)
  note inv = step.IH[THEN conjunct1] and le = step.IH[THEN conjunct2]
  show ?case
  proof (cases "execute s t")
    case (Inl e)
    then show ?thesis using step.IH by (simp add: transact_def)
  next
    case (Inr s')
    then have tr: "transact s t = s'" by (simp add: transact_def)
    show ?thesis
    proof (cases k)
      case RequestTokens
      with Inr t have r: "requestTokens s c now = Inr s'" by simp
      then have room: "unat (totalSupply (token s)) + unat FAUCET_AMOUNT \<le> unat MAX_SUPPLY"
        by (simp add: requestTokens_Inr unat_consts)
      from r have tok: "token s' = (token s)
          \<lparr>balances := (balances (token s))(c := balances (token s) c + FAUCET_AMOUNT),
           totalSupply := totalSupply (token s) + FAUCET_AMOUNT\<rparr>"
        by (simp add: requestTokens_Inr)
      show ?thesis
        unfolding tr
        using credit_keeps_supply(1,2)[OF inv room tok] room by simp
    next
      case (SetPaused v)
      with Inr t show ?thesis
        using step.IH unfolding tr by (auto simp: setPaused_Inr sum_balances_def)
    next
      case (Mint to amount)
      with Inr t have m: "mint s c to amount = Inr s'" by simp
      then have room: "unat (totalSupply (token s)) + unat amount \<le> unat MAX_SUPPLY"
        by (simp add: mint_Inr)
      from m have tok: "token s' = (token s)
          \<lparr>balances := (balances (token s))(to := balances (token s) to + amount),
           totalSupply := totalSupply (token s) + amount\<rparr>"
        by (simp add: mint_Inr ERC20_mint_def)
      show ?thesis
        unfolding tr
        using credit_keeps_supply(1,2)[OF inv room tok] room by simp
    next
      case (SetMinter m)
      with Inr t show ?thesis
        using step.IH unfolding tr by (auto simp: setMinter_Inr sum_balances_def)
    qed
  qed
qed

section \<open>Schedules of claims\<close>

lemma unat_day:
  assumes "n * 86400 < 2 ^ 64"
  shows "unat (day n) = n * 86400"
proof -
  have "unat (of_nat (n * 86400) :: timestamp) = (n * 86400) mod 2 ^ LENGTH(64)"
    by (rule unat_of_nat)
  also have "\<dots> = n * 86400"
    using assms by simp
  finally show ?thesis
    by (simp only: day_def)
qed

lemma claim_days_0: "claim_days a d 0 = []"
  by (simp add: claim_days_def)

lemma claim_days_Suc:
  "claim_days a d (Suc n) = claim_days a d n @ [(a, day (d + Suc n), RequestTokens)]"
  by (simp add: claim_days_def)

lemma requestTokens_success:
  assumes "\<not> entered (faucet s)" "\<not> paused (faucet s)"
    and "unat (lastClaimAt (faucet s) a) + 86400 \<le> unat t"
    and "unat (totalClaimed (faucet s) a) + 100 * 10 ^ 18 \<le> 1000 * 10 ^ 18"
    and "this_faucet s = minter (token s)" "a \<noteq> 0"
    and "unat (totalSupply (token s)) + 100 * 10 ^ 18 \<le> 100000 * 10 ^ 18"
  shows "requestTokens s a t =
     Inr (s\<lparr>token := (token s)
               \<lparr>balances := (balances (token s))(a := balances (token s) a + FAUCET_AMOUNT),
                totalSupply := totalSupply (token s) + FAUCET_AMOUNT\<rparr>,
            faucet := (faucet s)
               \<lparr>lastClaimAt := (lastClaimAt (faucet s))(a := block_timestamp t),
                totalClaimed := (totalClaimed (faucet s))(a := totalClaimed (faucet s) a + FAUCET_AMOUNT)\<rparr>,
            events := events s @ [Transfer 0 a FAUCET_AMOUNT,
                                  TokensClaimed a FAUCET_AMOUNT (block_timestamp t)]\<rparr>)"
  using assms by (simp add: requestTokens_Inr)

lemma claim_days_effect:
  assumes "\<not> entered (faucet s)" "\<not> paused (faucet s)" "this_faucet s = minter (token s)"
    and "a \<noteq> 0" "totalClaimed (faucet s) a = 0"
    and "unat (lastClaimAt (faucet s) a) \<le> d * 86400"
    and "n \<le> 10"
    and "unat (totalSupply (token s)) + n * (100 * 10 ^ 18) \<le> 100000 * 10 ^ 18"
    and "(d + n) * 86400 < 2 ^ 64"
  shows "\<not> entered (faucet (run s (claim_days a d n))) \<and>
         \<not> paused (faucet (run s (claim_days a d n))) \<and>
         this_faucet (run s (claim_days a d n)) = minter (token (run s (claim_days a d n))) \<and>
         admin (faucet (run s (claim_days a d n))) = admin (faucet s) \<and>
         unat (totalClaimed (faucet (run s (claim_days a d n))) a) = n * (100 * 10 ^ 18) \<and>
         unat (lastClaimAt (faucet (run s (claim_days a d n))) a) \<le> (d + n) * 86400 \<and>
         (0 < n \<longrightarrow> unat (lastClaimAt (faucet (run s (claim_days a d n))) a) = (d + n) * 86400) \<and>
         unat (totalSupply (token (run s (claim_days a d n))))
           = unat (totalSupply (token s)) + n * (100 * 10 ^ 18) \<and>
         (\<forall>b. b \<noteq> a \<longrightarrow>
            totalClaimed (faucet (run s (claim_days a d n))) b = totalClaimed (faucet s) b \<and>
            lastClaimAt (faucet (run s (claim_days a d n))) b = lastClaimAt (faucet s) b)"
  using assms(7-9)
proof (induction n)
  case 0
  then show ?case using assms(1-6) by (simp add: claim_days_0 run_Nil)
next
  case (Suc n)
  define s1 where "s1 = run s (claim_days a d n)"
  define t where "t = day (d + Suc n)"
  have ih: "\<not> entered (faucet s1)" "\<not> paused (faucet s1)" "this_faucet s1 = minter (token s1)"
    "admin (faucet s1) = admin (faucet s)"
    "unat (totalClaimed (faucet s1) a) = n * (100 * 10 ^ 18)"
    "unat (lastClaimAt (faucet s1) a) \<le> (d + n) * 86400"
    "unat (totalSupply (token s1)) = unat (totalSupply (token s)) + n * (100 * 10 ^ 18)"
    "\<And>b. b \<noteq> a \<Longrightarrow> totalClaimed (faucet s1) b = totalClaimed (faucet s) b \<and>
            lastClaimAt (faucet s1) b = lastClaimAt (faucet s) b"
    using Suc.IH Suc.prems unfolding s1_def by simp_all
  have t: "unat t = (d + Suc n) * 86400"
    unfolding t_def using Suc.prems(3) by (rule unat_day)
  have ok: "requestTokens s1 a t =
     Inr (s1\<lparr>token := (token s1)
               \<lparr>balances := (balances (token s1))(a := balances (token s1) a + FAUCET_AMOUNT),
                totalSupply := totalSupply (token s1) + FAUCET_AMOUNT\<rparr>,
            faucet := (faucet s1)
               \<lparr>lastClaimAt := (lastClaimAt (faucet s1))(a := block_timestamp t),
                totalClaimed := (totalClaimed (faucet s1))(a := totalClaimed (faucet s1) a + FAUCET_AMOUNT)\<rparr>,
            events := events s1 @ [Transfer 0 a FAUCET_AMOUNT,
                                  TokensClaimed a FAUCET_AMOUNT (block_timestamp t)]\<rparr>)"
    using ih(1-3,5-7) assms(4) Suc.prems t
    by (intro requestTokens_success) simp_all
  have r: "run s (claim_days a d (Suc n)) = transact s1 (a, t, RequestTokens)"
    by (simp add: claim_days_Suc run_append run_Cons run_Nil s1_def t_def)
  have tc: "unat (totalClaimed (faucet s1) a + FAUCET_AMOUNT) = Suc n * (100 * 10 ^ 18)"
    using ih(5) Suc.prems(1) by (simp add: unat_add_no_overflow unat_consts)
  have ts: "unat (totalSupply (token s1) + FAUCET_AMOUNT)
      = unat (totalSupply (token s)) + Suc n * (100 * 10 ^ 18)"
    using ih(7) Suc.prems(2) by (simp add: unat_add_no_overflow unat_consts)
  show ?case
    unfolding r
    using ih(1-4,8) tc ts t
    by (simp add: transact_def ok unat_block_timestamp)
qed


lemma unat_account: "n < 2 ^ 160 \<Longrightarrow> unat (of_nat n :: address) = n"
  by (simp add: unat_of_nat)

lemma wired_world_simps:
  "\<not> entered (faucet wired_world)" "\<not> paused (faucet wired_world)"
  "this_faucet wired_world = minter (token wired_world)"
  "admin (faucet wired_world) = deployer"
  "totalSupply (token wired_world) = 0"
  "totalClaimed (faucet wired_world) b = 0"
  "lastClaimAt (faucet wired_world) b = 0"
  by (simp_all add: wired_world_def)

lemma drain_effect:
  "i \<le> 100 \<Longrightarrow>
     \<not> entered (faucet (run wired_world (drain i))) \<and>
     \<not> paused (faucet (run wired_world (drain i))) \<and>
     this_faucet (run wired_world (drain i)) = minter (token (run wired_world (drain i))) \<and>
     admin (faucet (run wired_world (drain i))) = deployer \<and>
     unat (totalSupply (token (run wired_world (drain i)))) = i * (1000 * 10 ^ 18) \<and>
     (\<forall>b. i < unat b \<longrightarrow>
        totalClaimed (faucet (run wired_world (drain i))) b = 0 \<and>
        lastClaimAt (faucet (run wired_world (drain i))) b = 0)"
proof (induction i)
  case 0
  show ?case by (simp add: run_Nil wired_world_simps)
next
  case (Suc i)
  define s where "s = run wired_world (drain i)"
  define a :: address where "a = of_nat (Suc i)"
  have ih: "\<not> entered (faucet s)" "\<not> paused (faucet s)" "this_faucet s = minter (token s)"
    "admin (faucet s) = deployer"
    "unat (totalSupply (token s)) = i * (1000 * 10 ^ 18)"
    "\<And>b. i < unat b \<Longrightarrow> totalClaimed (faucet s) b = 0 \<and> lastClaimAt (faucet s) b = 0"
    using Suc.IH Suc.prems unfolding s_def by simp_all
  have ua: "unat a = Suc i"
    unfolding a_def using Suc.prems by (intro unat_account) simp
  then have a0: "a \<noteq> 0" by (metis unat_0 nat.distinct(1))
  have fresh: "totalClaimed (faucet s) a = 0" "unat (lastClaimAt (faucet s) a) \<le> (10 * i) * 86400"
    using ih(6)[of a] ua by simp_all
  have room: "unat (totalSupply (token s)) + 10 * (100 * 10 ^ 18) \<le> 100000 * 10 ^ 18"
    using ih(5) Suc.prems by simp
  have time: "(10 * i + 10) * 86400 < 2 ^ 64"
    using Suc.prems by simp
  have r: "run wired_world (drain (Suc i)) = run s (claim_days a (10 * i) 10)"
    by (simp add: run_append s_def a_def)
  note eff = claim_days_effect[OF ih(1-3) a0 fresh(1) fresh(2) order_refl room time]
  have others: "\<And>b. Suc i < unat b \<Longrightarrow> b \<noteq> a \<and> i < unat b"
    using ua by auto
  show ?case
    unfolding r using eff ih(4,5,6) others by simp
qed

section \<open>The lifetime cap\<close>

text \<open>
  C3. For every account and every reachable world (any sequence of transactions after a
  deployment, among them every sequence of \<^verbatim>\<open>requestTokens\<close> and \<^verbatim>\<open>setPaused\<close> calls),
  \<^verbatim>\<open>totalClaimed[A] <= MAX_CLAIM_AMOUNT\<close>.
\<close>

theorem totalClaimed_le_MAX_CLAIM_AMOUNT:
  "reachable s \<Longrightarrow> totalClaimed (faucet s) a \<le> MAX_CLAIM_AMOUNT"
proof -
  assume "reachable s"
  then obtain k where "k \<le> 10" "unat (totalClaimed (faucet s) a) = k * (100 * 10 ^ 18)"
    using reachable_totalClaimed_steps by blast
  then show ?thesis
    by (simp add: word_le_nat_alt unat_consts)
qed

theorem totalClaimed_le_MAX_CLAIM_AMOUNT_witness:
  "reachable (transact wired_world (alice, 86400, RequestTokens)) \<and>
   totalClaimed (faucet (transact wired_world (alice, 86400, RequestTokens))) alice = FAUCET_AMOUNT \<and>
   totalClaimed (faucet (transact wired_world (alice, 86400, RequestTokens))) alice
     \<le> MAX_CLAIM_AMOUNT"
proof -
  have r: "reachable (transact wired_world (alice, 86400, RequestTokens))"
    by (rule reachable.step[OF reachable_wired_world])
  show ?thesis
    using r totalClaimed_le_MAX_CLAIM_AMOUNT[OF r, of alice]
    by (simp add: transact_def first_claim)
qed

section \<open>The read-only eligibility test and the claim\<close>

lemma reachable_drained_world: "reachable drained_world"
  unfolding drained_world_def by (rule reachable_run[OF reachable_wired_world])

lemma unat_latecomer: "unat latecomer = 101"
  by (simp add: latecomer_def)

lemma drained_world_simps:
  "\<not> entered (faucet drained_world)" "\<not> paused (faucet drained_world)"
  "this_faucet drained_world = minter (token drained_world)"
  "unat (totalSupply (token drained_world)) = 100000 * 10 ^ 18"
  "totalClaimed (faucet drained_world) latecomer = 0"
  "lastClaimAt (faucet drained_world) latecomer = 0"
  using drain_effect[of 100] unat_latecomer unfolding drained_world_def by simp_all

lemma canClaim_reachable:
  assumes "reachable s"
  shows "canClaim s a t =
     Inr (\<not> paused (faucet s) \<and> unat (lastClaimAt (faucet s) a) + 86400 \<le> unat t \<and>
          unat (totalClaimed (faucet s) a) < 1000 * 10 ^ 18)"
  using reachable_lastClaimAt_bound[OF assms, of a]
  by (auto simp: canClaim_def checked_add_def unat_consts word_le_nat_alt word_less_nat_alt
        unat_add_no_overflow unat_block_timestamp)

lemma lifetime_tests_agree:
  assumes "reachable s"
  shows "(MAX_CLAIM_AMOUNT \<le> totalClaimed (faucet s) a) =
         (unat MAX_CLAIM_AMOUNT < unat (totalClaimed (faucet s) a) + unat FAUCET_AMOUNT)"
proof -
  obtain k where k: "k \<le> 10" "unat (totalClaimed (faucet s) a) = k * (100 * 10 ^ 18)"
    using reachable_totalClaimed_steps[OF assms] by blast
  show ?thesis
    using k by (auto simp: word_le_nat_alt unat_consts)
qed

lemma requestTokens_reachable:
  assumes "reachable s"
  shows "requestTokens s a t =
     (if paused (faucet s) then Inl E_FaucetPaused
      else if unat t < unat (lastClaimAt (faucet s) a) + 86400 then Inl E_CooldownActive
      else if 1000 * 10 ^ 18 < unat (totalClaimed (faucet s) a) + 100 * 10 ^ 18
        then Inl E_LifetimeLimitReached
      else case mint s (this_faucet s) a FAUCET_AMOUNT of
             Inl e \<Rightarrow> Inl e
           | Inr s1 \<Rightarrow>
               Inr (s1\<lparr>faucet := (faucet s)
                       \<lparr>lastClaimAt := (lastClaimAt (faucet s))(a := block_timestamp t),
                        totalClaimed := (totalClaimed (faucet s))
                          (a := totalClaimed (faucet s) a + FAUCET_AMOUNT)\<rparr>,
                     events := events s1 @
                       [TokensClaimed a FAUCET_AMOUNT (block_timestamp t)]\<rparr>))"
proof -
  note ne = reachable_not_entered[OF assms]
  note lb = reachable_lastClaimAt_bound[OF assms, of a]
  obtain k where k: "k \<le> 10" "unat (totalClaimed (faucet s) a) = k * (100 * 10 ^ 18)"
    using reachable_totalClaimed_steps[OF assms] by blast
  then have tb: "unat (totalClaimed (faucet s) a) \<le> 1000 * 10 ^ 18" by simp
  show ?thesis
  proof (cases "paused (faucet s)")
    case True
    then show ?thesis using ne by (simp add: requestTokens_paused)
  next
    case np: False
    show ?thesis
    proof (cases "unat t < unat (lastClaimAt (faucet s) a) + 86400")
      case True
      then show ?thesis using ne np lb by (simp add: requestTokens_cooldown)
    next
      case nc: False
      show ?thesis
      proof (cases "1000 * 10 ^ 18 < unat (totalClaimed (faucet s) a) + 100 * 10 ^ 18")
        case True
        then show ?thesis using ne np nc tb requestTokens_lifetime[of s a t] by simp
      next
        case nl: False
        show ?thesis
        proof (cases "mint s (this_faucet s) a FAUCET_AMOUNT")
          case (Inl e)
          then show ?thesis
            using ne np nc nl requestTokens_mint_fails[of s a t e] by simp
        next
          case (Inr s1)
          then have m: "this_faucet s = minter (token s)" "a \<noteq> 0"
            "unat (totalSupply (token s)) + 100 * 10 ^ 18 \<le> 100000 * 10 ^ 18"
            "s1 = ERC20_mint s a FAUCET_AMOUNT"
            by (simp_all add: mint_Inr unat_consts)
          have "requestTokens s a t = Inr (s1\<lparr>faucet := (faucet s)
                       \<lparr>lastClaimAt := (lastClaimAt (faucet s))(a := block_timestamp t),
                        totalClaimed := (totalClaimed (faucet s))
                          (a := totalClaimed (faucet s) a + FAUCET_AMOUNT)\<rparr>,
                     events := events s1 @
                       [TokensClaimed a FAUCET_AMOUNT (block_timestamp t)]\<rparr>)"
            using ne np nc nl m(1-3)
            by (subst requestTokens_success) (simp_all add: m(4) ERC20_mint_def)
          then show ?thesis
            using np nc nl Inr by simp
        qed
      qed
    qed
  qed
qed

lemma latecomer_claim_fails:
  "requestTokens drained_world latecomer (day 1001) = Inl E_SupplyExceeded"
proof -
  have t: "unat (day 1001) = 1001 * 86400"
    by (rule unat_day) simp
  have m: "mint drained_world (this_faucet drained_world) latecomer FAUCET_AMOUNT
      = Inl E_SupplyExceeded"
    by (simp add: mint_Inl drained_world_simps unat_consts latecomer_def)
  show ?thesis
    by (simp add: requestTokens_reachable[OF reachable_drained_world]
          drained_world_simps(1,2,5,6) t m)
qed

text \<open>
  C1, as amended. On every reachable world \<^verbatim>\<open>canClaim(A)\<close> returns a boolean, and it returns
  true exactly when a \<^verbatim>\<open>requestTokens()\<close> call of \<open>A\<close> at that instant passes the three gates
  of the faucet: the call succeeds if and only if \<^verbatim>\<open>canClaim(A)\<close> is true and the nested
  \<^verbatim>\<open>token.mint(A, FAUCET_AMOUNT)\<close> succeeds; when \<^verbatim>\<open>canClaim(A)\<close> is true and the mint fails,
  the call fails with the mint's error; when \<^verbatim>\<open>canClaim(A)\<close> is false the call fails with
  \<^verbatim>\<open>FaucetPaused\<close>, \<^verbatim>\<open>CooldownActive\<close> or \<^verbatim>\<open>LifetimeLimitReached\<close>. The read-only lifetime
  test \<^verbatim>\<open>totalClaimed[A] >= MAX_CLAIM_AMOUNT\<close> and the mutating one
  \<^verbatim>\<open>totalClaimed[A] + FAUCET_AMOUNT > MAX_CLAIM_AMOUNT\<close> agree on every reachable world.
\<close>

theorem canClaim_iff_gates_pass:
  "reachable s \<Longrightarrow>
     (canClaim s a t = Inr True \<or> canClaim s a t = Inr False) \<and>
     ((\<exists>s'. requestTokens s a t = Inr s') \<longleftrightarrow>
        canClaim s a t = Inr True \<and> (\<exists>s1. mint s (this_faucet s) a FAUCET_AMOUNT = Inr s1)) \<and>
     (\<forall>e. canClaim s a t = Inr True \<and> mint s (this_faucet s) a FAUCET_AMOUNT = Inl e
          \<longrightarrow> requestTokens s a t = Inl e) \<and>
     (canClaim s a t = Inr False \<longrightarrow>
        requestTokens s a t = Inl E_FaucetPaused \<or>
        requestTokens s a t = Inl E_CooldownActive \<or>
        requestTokens s a t = Inl E_LifetimeLimitReached) \<and>
     ((MAX_CLAIM_AMOUNT \<le> totalClaimed (faucet s) a) =
        (unat MAX_CLAIM_AMOUNT < unat (totalClaimed (faucet s) a) + unat FAUCET_AMOUNT))"
proof -
  assume r: "reachable s"
  obtain k where k: "k \<le> 10" "unat (totalClaimed (faucet s) a) = k * (100 * 10 ^ 18)"
    using reachable_totalClaimed_steps[OF r] by blast
  have "k \<le> 9 \<or> k = 10" using k(1) by arith
  then have dich: "unat (totalClaimed (faucet s) a) \<le> 900 * 10 ^ 18 \<or>
      unat (totalClaimed (faucet s) a) = 1000 * 10 ^ 18"
    using k(2) by auto
  show ?thesis
    using lifetime_tests_agree[OF r, of a] dich
    by (auto simp: canClaim_reachable[OF r] requestTokens_reachable[OF r]
          split: sum.splits)
qed

text \<open>
  The amended C1 at the wired deployment: \<open>alice\<close> may claim, the mint succeeds, and so does
  the claim.
\<close>

theorem canClaim_iff_gates_pass_witness:
  "reachable wired_world \<and>
   canClaim wired_world alice 86400 = Inr True \<and>
   mint wired_world (this_faucet wired_world) alice FAUCET_AMOUNT
     = Inr (ERC20_mint wired_world alice FAUCET_AMOUNT) \<and>
   \<not> isl (requestTokens wired_world alice 86400) \<and>
   \<not> MAX_CLAIM_AMOUNT \<le> totalClaimed (faucet wired_world) alice"
proof -
  have m: "mint wired_world (this_faucet wired_world) alice FAUCET_AMOUNT
     = Inr (ERC20_mint wired_world alice FAUCET_AMOUNT)"
    by (simp add: mint_Inr wired_world_def alice_def unat_consts)
  have c: "canClaim wired_world alice 86400 = Inr True"
    by (simp add: canClaim_reachable[OF reachable_wired_world] wired_world_simps)
  show ?thesis
    using canClaim_iff_gates_pass[OF reachable_wired_world, of alice 86400] m c
      reachable_wired_world
    by (auto simp: wired_world_simps unat_consts)
qed

text \<open>
  C1 as stated fails once the whole supply is issued. After a hundred accounts have claimed
  ten times each, \<^verbatim>\<open>totalSupply() = MAX_SUPPLY\<close>; for an account that never claimed
  \<^verbatim>\<open>canClaim\<close> is true, while its \<^verbatim>\<open>requestTokens()\<close> reverts in \<^verbatim>\<open>Token.mint\<close> with
  ``Exceeds maximum supply''.
\<close>

theorem canClaim_true_yet_claim_fails:
  "reachable drained_world \<and> \<not> entered (faucet drained_world) \<and>
   canClaim drained_world latecomer (day 1001) = Inr True \<and>
   requestTokens drained_world latecomer (day 1001) = Inl E_SupplyExceeded"
proof -
  have t: "unat (day 1001) = 1001 * 86400"
    by (rule unat_day) simp
  have c: "canClaim drained_world latecomer (day 1001) = Inr True"
    by (simp add: canClaim_reachable[OF reachable_drained_world] drained_world_simps t)
  show ?thesis
    using reachable_drained_world drained_world_simps(1) c latecomer_claim_fails by simp
qed

section \<open>Failed claims\<close>

lemma requestTokens_body_calls_mint:
  assumes "\<not> paused (faucet s)"
    and "unat (lastClaimAt (faucet s) a) + unat COOLDOWN_TIME \<le> unat (block_timestamp t)"
    and "unat (totalClaimed (faucet s) a) + unat FAUCET_AMOUNT \<le> unat MAX_CLAIM_AMOUNT"
  shows "requestTokens_body (s\<lparr>faucet := (faucet s)\<lparr>entered := True\<rparr>\<rparr>) a t =
     (case mint (counters_assigned s a t) (this_faucet s) a FAUCET_AMOUNT of
        Inl e' \<Rightarrow> Inl e'
      | Inr s2 \<Rightarrow>
          Inr (s2\<lparr>events := events s2 @
                 [TokensClaimed a FAUCET_AMOUNT (block_timestamp t)]\<rparr>))"
  using assms unat_timestamp_bound[of t]
  by (simp add: requestTokens_body_def counters_assigned_def checked_add_def unat_consts
        word_le_nat_alt unat_add_no_overflow unat_block_timestamp Let_def)

lemma requestTokens_mint_failure:
  assumes "\<not> entered (faucet s)" "\<not> paused (faucet s)"
    and "unat (lastClaimAt (faucet s) a) + unat COOLDOWN_TIME \<le> unat (block_timestamp t)"
    and "unat (totalClaimed (faucet s) a) + unat FAUCET_AMOUNT \<le> unat MAX_CLAIM_AMOUNT"
    and "mint (counters_assigned s a t) (this_faucet s) a FAUCET_AMOUNT = Inl e"
  shows "requestTokens s a t = Inl e"
  using assms(1,5) requestTokens_body_calls_mint[OF assms(2-4)]
  by (simp add: requestTokens_def nonReentrant_def)

text \<open>
  C2. If \<^verbatim>\<open>requestTokens()\<close> fails for any reason, the transaction leaves the world as it
  was: \<^verbatim>\<open>lastClaimAt\<close>, \<^verbatim>\<open>totalClaimed\<close>, the balances, the total supply and the event log (so no
  \<^verbatim>\<open>TokensClaimed\<close> event) are those of before the call. In particular, when the three gates
  have passed, the body assigns the two counters and then calls \<^verbatim>\<open>token.mint\<close> on the world
  with the counters assigned; if that nested call fails, \<^verbatim>\<open>requestTokens()\<close> fails with the
  same error and the assigned counters are rolled back with everything else. A call that
  succeeds commits both counters, the balance, the supply and the two events together.
\<close>

theorem failed_claim_changes_nothing:
  "(requestTokens s a t = Inl e \<longrightarrow>
      transact s (a, t, RequestTokens) = s \<and>
      lastClaimAt (faucet (transact s (a, t, RequestTokens))) = lastClaimAt (faucet s) \<and>
      totalClaimed (faucet (transact s (a, t, RequestTokens))) = totalClaimed (faucet s) \<and>
      balances (token (transact s (a, t, RequestTokens))) = balances (token s) \<and>
      totalSupply (token (transact s (a, t, RequestTokens))) = totalSupply (token s) \<and>
      events (transact s (a, t, RequestTokens)) = events s) \<and>
   (\<not> entered (faucet s) \<and> \<not> paused (faucet s) \<and>
    unat (lastClaimAt (faucet s) a) + unat COOLDOWN_TIME \<le> unat (block_timestamp t) \<and>
    unat (totalClaimed (faucet s) a) + unat FAUCET_AMOUNT \<le> unat MAX_CLAIM_AMOUNT \<longrightarrow>
      requestTokens_body (s\<lparr>faucet := (faucet s)\<lparr>entered := True\<rparr>\<rparr>) a t =
        (case mint (counters_assigned s a t) (this_faucet s) a FAUCET_AMOUNT of
           Inl e' \<Rightarrow> Inl e'
         | Inr s2 \<Rightarrow>
             Inr (s2\<lparr>events := events s2 @
                    [TokensClaimed a FAUCET_AMOUNT (block_timestamp t)]\<rparr>)) \<and>
      lastClaimAt (faucet (counters_assigned s a t)) a = block_timestamp t \<and>
      unat (totalClaimed (faucet (counters_assigned s a t)) a)
        = unat (totalClaimed (faucet s) a) + unat FAUCET_AMOUNT \<and>
      (mint (counters_assigned s a t) (this_faucet s) a FAUCET_AMOUNT = Inl e \<longrightarrow>
         requestTokens s a t = Inl e \<and>
         transact s (a, t, RequestTokens) = s \<and>
         lastClaimAt (faucet (transact s (a, t, RequestTokens))) a = lastClaimAt (faucet s) a \<and>
         totalClaimed (faucet (transact s (a, t, RequestTokens))) a
           = totalClaimed (faucet s) a \<and>
         events (transact s (a, t, RequestTokens)) = events s)) \<and>
   (\<forall>s'. requestTokens s a t = Inr s' \<longrightarrow>
      transact s (a, t, RequestTokens) = s' \<and>
      lastClaimAt (faucet s') a = block_timestamp t \<and>
      totalClaimed (faucet s') a = totalClaimed (faucet s) a + FAUCET_AMOUNT \<and>
      balances (token s') a = balances (token s) a + FAUCET_AMOUNT \<and>
      totalSupply (token s') = totalSupply (token s) + FAUCET_AMOUNT \<and>
      events s' = events s @ [Transfer 0 a FAUCET_AMOUNT,
                              TokensClaimed a FAUCET_AMOUNT (block_timestamp t)])"
proof -
  have A: "requestTokens s a t = Inl e \<longrightarrow>
      transact s (a, t, RequestTokens) = s \<and>
      lastClaimAt (faucet (transact s (a, t, RequestTokens))) = lastClaimAt (faucet s) \<and>
      totalClaimed (faucet (transact s (a, t, RequestTokens))) = totalClaimed (faucet s) \<and>
      balances (token (transact s (a, t, RequestTokens))) = balances (token s) \<and>
      totalSupply (token (transact s (a, t, RequestTokens))) = totalSupply (token s) \<and>
      events (transact s (a, t, RequestTokens)) = events s"
    by (simp add: transact_def)
  have B: "\<not> entered (faucet s) \<and> \<not> paused (faucet s) \<and>
    unat (lastClaimAt (faucet s) a) + unat COOLDOWN_TIME \<le> unat (block_timestamp t) \<and>
    unat (totalClaimed (faucet s) a) + unat FAUCET_AMOUNT \<le> unat MAX_CLAIM_AMOUNT \<longrightarrow>
      requestTokens_body (s\<lparr>faucet := (faucet s)\<lparr>entered := True\<rparr>\<rparr>) a t =
        (case mint (counters_assigned s a t) (this_faucet s) a FAUCET_AMOUNT of
           Inl e' \<Rightarrow> Inl e'
         | Inr s2 \<Rightarrow>
             Inr (s2\<lparr>events := events s2 @
                    [TokensClaimed a FAUCET_AMOUNT (block_timestamp t)]\<rparr>)) \<and>
      lastClaimAt (faucet (counters_assigned s a t)) a = block_timestamp t \<and>
      unat (totalClaimed (faucet (counters_assigned s a t)) a)
        = unat (totalClaimed (faucet s) a) + unat FAUCET_AMOUNT \<and>
      (mint (counters_assigned s a t) (this_faucet s) a FAUCET_AMOUNT = Inl e \<longrightarrow>
         requestTokens s a t = Inl e \<and>
         transact s (a, t, RequestTokens) = s \<and>
         lastClaimAt (faucet (transact s (a, t, RequestTokens))) a = lastClaimAt (faucet s) a \<and>
         totalClaimed (faucet (transact s (a, t, RequestTokens))) a
           = totalClaimed (faucet s) a \<and>
         events (transact s (a, t, RequestTokens)) = events s)"
  proof (intro impI, elim conjE, intro conjI impI)
    assume g: "\<not> entered (faucet s)" "\<not> paused (faucet s)"
      "unat (lastClaimAt (faucet s) a) + unat COOLDOWN_TIME \<le> unat (block_timestamp t)"
      "unat (totalClaimed (faucet s) a) + unat FAUCET_AMOUNT \<le> unat MAX_CLAIM_AMOUNT"
    show "requestTokens_body (s\<lparr>faucet := (faucet s)\<lparr>entered := True\<rparr>\<rparr>) a t =
        (case mint (counters_assigned s a t) (this_faucet s) a FAUCET_AMOUNT of
           Inl e' \<Rightarrow> Inl e'
         | Inr s2 \<Rightarrow>
             Inr (s2\<lparr>events := events s2 @
                    [TokensClaimed a FAUCET_AMOUNT (block_timestamp t)]\<rparr>))"
      using g(2-4) by (rule requestTokens_body_calls_mint)
    show "lastClaimAt (faucet (counters_assigned s a t)) a = block_timestamp t"
      by (simp add: counters_assigned_def)
    show "unat (totalClaimed (faucet (counters_assigned s a t)) a)
        = unat (totalClaimed (faucet s) a) + unat FAUCET_AMOUNT"
      using g(4) by (simp add: counters_assigned_def unat_add_no_overflow unat_consts)
  next
    assume g: "\<not> entered (faucet s)" "\<not> paused (faucet s)"
      "unat (lastClaimAt (faucet s) a) + unat COOLDOWN_TIME \<le> unat (block_timestamp t)"
      "unat (totalClaimed (faucet s) a) + unat FAUCET_AMOUNT \<le> unat MAX_CLAIM_AMOUNT"
    assume m: "mint (counters_assigned s a t) (this_faucet s) a FAUCET_AMOUNT = Inl e"
    show fail: "requestTokens s a t = Inl e"
      using g m by (rule requestTokens_mint_failure)
    then show same: "transact s (a, t, RequestTokens) = s"
      by (simp add: transact_def)
    show "lastClaimAt (faucet (transact s (a, t, RequestTokens))) a = lastClaimAt (faucet s) a"
      "totalClaimed (faucet (transact s (a, t, RequestTokens))) a = totalClaimed (faucet s) a"
      "events (transact s (a, t, RequestTokens)) = events s"
      by (simp_all only: same)
  qed
  have C: "\<forall>s'. requestTokens s a t = Inr s' \<longrightarrow>
      transact s (a, t, RequestTokens) = s' \<and>
      lastClaimAt (faucet s') a = block_timestamp t \<and>
      totalClaimed (faucet s') a = totalClaimed (faucet s) a + FAUCET_AMOUNT \<and>
      balances (token s') a = balances (token s) a + FAUCET_AMOUNT \<and>
      totalSupply (token s') = totalSupply (token s) + FAUCET_AMOUNT \<and>
      events s' = events s @ [Transfer 0 a FAUCET_AMOUNT,
                              TokensClaimed a FAUCET_AMOUNT (block_timestamp t)]"
  proof (intro allI impI)
    fix s'
    assume ok: "requestTokens s a t = Inr s'"
    have "transact s (a, t, RequestTokens) = s'"
      using ok by (simp add: transact_def)
    then show "transact s (a, t, RequestTokens) = s' \<and>
      lastClaimAt (faucet s') a = block_timestamp t \<and>
      totalClaimed (faucet s') a = totalClaimed (faucet s) a + FAUCET_AMOUNT \<and>
      balances (token s') a = balances (token s) a + FAUCET_AMOUNT \<and>
      totalSupply (token s') = totalSupply (token s) + FAUCET_AMOUNT \<and>
      events s' = events s @ [Transfer 0 a FAUCET_AMOUNT,
                              TokensClaimed a FAUCET_AMOUNT (block_timestamp t)]"
      using ok by (simp add: requestTokens_Inr)
  qed
  show ?thesis
    by (rule conjI[OF A conjI[OF B C]])
qed

text \<open>
  C2 where the whole supply is issued: for \<open>latecomer\<close> the three gates pass and the counters
  are assigned (\<^verbatim>\<open>totalClaimed\<close> would be \<^verbatim>\<open>FAUCET_AMOUNT\<close>), the nested \<^verbatim>\<open>Token.mint\<close> fails
  with ``Exceeds maximum supply'', so does \<^verbatim>\<open>requestTokens()\<close>, and the world after the
  transaction is the world before it, with both counters of \<open>latecomer\<close> still zero.
\<close>

theorem failed_claim_changes_nothing_witness:
  "\<not> entered (faucet drained_world) \<and> \<not> paused (faucet drained_world) \<and>
   unat (lastClaimAt (faucet drained_world) latecomer) + unat COOLDOWN_TIME
     \<le> unat (block_timestamp (day 1001)) \<and>
   unat (totalClaimed (faucet drained_world) latecomer) + unat FAUCET_AMOUNT
     \<le> unat MAX_CLAIM_AMOUNT \<and>
   totalClaimed (faucet (counters_assigned drained_world latecomer (day 1001))) latecomer
     = FAUCET_AMOUNT \<and>
   mint (counters_assigned drained_world latecomer (day 1001)) (this_faucet drained_world)
     latecomer FAUCET_AMOUNT = Inl E_SupplyExceeded \<and>
   requestTokens drained_world latecomer (day 1001) = Inl E_SupplyExceeded \<and>
   transact drained_world (latecomer, day 1001, RequestTokens) = drained_world \<and>
   totalClaimed (faucet (transact drained_world (latecomer, day 1001, RequestTokens))) latecomer = 0 \<and>
   lastClaimAt (faucet (transact drained_world (latecomer, day 1001, RequestTokens))) latecomer = 0 \<and>
   events (transact drained_world (latecomer, day 1001, RequestTokens)) = events drained_world"
proof -
  have t: "unat (day 1001) = 1001 * 86400"
    by (rule unat_day) simp
  have g: "\<not> entered (faucet drained_world) \<and> \<not> paused (faucet drained_world) \<and>
     unat (lastClaimAt (faucet drained_world) latecomer) + unat COOLDOWN_TIME
       \<le> unat (block_timestamp (day 1001)) \<and>
     unat (totalClaimed (faucet drained_world) latecomer) + unat FAUCET_AMOUNT
       \<le> unat MAX_CLAIM_AMOUNT"
    by (simp add: drained_world_simps unat_consts unat_block_timestamp t)
  have c: "totalClaimed (faucet (counters_assigned drained_world latecomer (day 1001))) latecomer
     = FAUCET_AMOUNT"
    by (simp add: counters_assigned_def drained_world_simps)
  have m: "mint (counters_assigned drained_world latecomer (day 1001)) (this_faucet drained_world)
     latecomer FAUCET_AMOUNT = Inl E_SupplyExceeded"
    by (simp add: mint_Inl counters_assigned_def drained_world_simps unat_consts latecomer_def)
  have r: "requestTokens drained_world latecomer (day 1001) = Inl E_SupplyExceeded \<and>
      transact drained_world (latecomer, day 1001, RequestTokens) = drained_world \<and>
      lastClaimAt (faucet (transact drained_world (latecomer, day 1001, RequestTokens))) latecomer
        = lastClaimAt (faucet drained_world) latecomer \<and>
      totalClaimed (faucet (transact drained_world (latecomer, day 1001, RequestTokens))) latecomer
        = totalClaimed (faucet drained_world) latecomer \<and>
      events (transact drained_world (latecomer, day 1001, RequestTokens)) = events drained_world"
    using failed_claim_changes_nothing[of drained_world latecomer "day 1001" E_SupplyExceeded]
      g m by blast
  show ?thesis
    using g c m r by (simp add: drained_world_simps(5,6))
qed

section \<open>The order of the gates\<close>

lemma requestTokens_gates:
  assumes "reachable s"
  shows "paused (faucet s) \<Longrightarrow> requestTokens s a t = Inl E_FaucetPaused"
    and "\<not> paused (faucet s) \<Longrightarrow> unat t < unat (lastClaimAt (faucet s) a) + 86400 \<Longrightarrow>
         requestTokens s a t = Inl E_CooldownActive"
    and "\<not> paused (faucet s) \<Longrightarrow> \<not> unat t < unat (lastClaimAt (faucet s) a) + 86400 \<Longrightarrow>
         1000 * 10 ^ 18 < unat (totalClaimed (faucet s) a) + 100 * 10 ^ 18 \<Longrightarrow>
         requestTokens s a t = Inl E_LifetimeLimitReached"
  by (simp_all add: requestTokens_reachable[OF assms])

lemma reachable_exhausted_world: "reachable exhausted_world"
  unfolding exhausted_world_def by (rule reachable_run[OF reachable_wired_world])

lemma alice_nonzero: "alice \<noteq> 0"
  by (simp add: alice_def)

lemma exhausted_world_simps:
  "\<not> entered (faucet exhausted_world)" "\<not> paused (faucet exhausted_world)"
  "this_faucet exhausted_world = minter (token exhausted_world)"
  "admin (faucet exhausted_world) = deployer"
  "unat (totalClaimed (faucet exhausted_world) alice) = 1000 * 10 ^ 18"
  "unat (lastClaimAt (faucet exhausted_world) alice) = 10 * 86400"
  using claim_days_effect[of wired_world alice 0 10] alice_nonzero
  unfolding exhausted_world_def by (simp_all add: wired_world_simps)

lemma paused_world_eq:
  "paused_world = exhausted_world
     \<lparr>faucet := (faucet exhausted_world)\<lparr>paused := True\<rparr>,
      events := events exhausted_world @ [FaucetPaused True]\<rparr>"
  by (simp add: paused_world_def transact_def setPaused_def exhausted_world_simps)

lemma reachable_paused_world: "reachable paused_world"
  unfolding paused_world_def by (rule reachable.step[OF reachable_exhausted_world])

lemma unat_day_10: "unat (day 10) = 10 * 86400"
  by (rule unat_day) simp

lemma unat_day_11: "unat (day 11) = 11 * 86400"
  by (rule unat_day) simp

text \<open>
  C4. A claim attempt evaluates its gates in the order paused, cooldown, lifetime limit,
  and the first that fails decides the error: when paused it fails with \<^verbatim>\<open>FaucetPaused\<close>
  whatever the cooldown and the lifetime total are; when not paused and
  \<^verbatim>\<open>now < lastClaimAt + COOLDOWN_TIME\<close> it fails with \<^verbatim>\<open>CooldownActive\<close> whatever the lifetime
  total is; when neither holds and \<^verbatim>\<open>totalClaimed + FAUCET_AMOUNT > MAX_CLAIM_AMOUNT\<close> it fails
  with \<^verbatim>\<open>LifetimeLimitReached\<close>.
\<close>

theorem gates_in_order:
  "reachable s \<Longrightarrow>
     (paused (faucet s) \<longrightarrow> requestTokens s a t = Inl E_FaucetPaused) \<and>
     (\<not> paused (faucet s) \<and>
      unat (block_timestamp t) < unat (lastClaimAt (faucet s) a) + unat COOLDOWN_TIME
        \<longrightarrow> requestTokens s a t = Inl E_CooldownActive) \<and>
     (\<not> paused (faucet s) \<and>
      \<not> unat (block_timestamp t) < unat (lastClaimAt (faucet s) a) + unat COOLDOWN_TIME \<and>
      unat MAX_CLAIM_AMOUNT < unat (totalClaimed (faucet s) a) + unat FAUCET_AMOUNT
        \<longrightarrow> requestTokens s a t = Inl E_LifetimeLimitReached)"
proof -
  assume r: "reachable s"
  show ?thesis
    using requestTokens_gates[OF r, where a = a and t = t]
    by (simp add: unat_consts unat_block_timestamp)
qed

text \<open>
  C4 on worlds where \<open>alice\<close> has claimed ten times, the last time on day 10. Paused, within
  the cooldown and at the limit: \<^verbatim>\<open>FaucetPaused\<close>. Not paused, within the cooldown and at the
  limit: \<^verbatim>\<open>CooldownActive\<close>. Not paused, cooldown over, at the limit:
  \<^verbatim>\<open>LifetimeLimitReached\<close>.
\<close>

theorem gates_in_order_witness:
  "reachable paused_world \<and> paused (faucet paused_world) \<and>
   requestTokens paused_world alice (day 10) = Inl E_FaucetPaused \<and>
   reachable exhausted_world \<and> \<not> paused (faucet exhausted_world) \<and>
   unat (block_timestamp (day 10))
     < unat (lastClaimAt (faucet exhausted_world) alice) + unat COOLDOWN_TIME \<and>
   requestTokens exhausted_world alice (day 10) = Inl E_CooldownActive \<and>
   \<not> unat (block_timestamp (day 11))
     < unat (lastClaimAt (faucet exhausted_world) alice) + unat COOLDOWN_TIME \<and>
   unat MAX_CLAIM_AMOUNT
     < unat (totalClaimed (faucet exhausted_world) alice) + unat FAUCET_AMOUNT \<and>
   requestTokens exhausted_world alice (day 11) = Inl E_LifetimeLimitReached"
proof -
  have p: "paused (faucet paused_world)"
    by (simp add: paused_world_eq)
  show ?thesis
    using gates_in_order[OF reachable_paused_world, of alice "day 10"]
      gates_in_order[OF reachable_exhausted_world, of alice "day 10"]
      gates_in_order[OF reachable_exhausted_world, of alice "day 11"]
      reachable_paused_world reachable_exhausted_world p
    by (simp add: exhausted_world_simps unat_consts unat_block_timestamp unat_day_10
          unat_day_11)
qed

section \<open>The lifetime total in steps of the faucet amount\<close>

lemma claimed_world_eq:
  "claimed_world = wired_world
      \<lparr>token := (token wired_world)
         \<lparr>balances := (\<lambda>_. 0)(alice := FAUCET_AMOUNT), totalSupply := FAUCET_AMOUNT\<rparr>,
       faucet := (faucet wired_world)
         \<lparr>lastClaimAt := (\<lambda>_. 0)(alice := 86400),
          totalClaimed := (\<lambda>_. 0)(alice := FAUCET_AMOUNT)\<rparr>,
       events := [Transfer 0 alice FAUCET_AMOUNT, TokensClaimed alice FAUCET_AMOUNT 86400]\<rparr>"
  using first_claim by (simp add: claimed_world_def transact_def day_def)

lemma reachable_claimed_world: "reachable claimed_world"
  unfolding claimed_world_def by (rule reachable.step[OF reachable_wired_world])

text \<open>
  C10. On every reachable world \<^verbatim>\<open>totalClaimed[A]\<close> is an exact multiple of
  \<^verbatim>\<open>FAUCET_AMOUNT\<close>, one of \<open>0\<close>, \<open>100 * 10^18\<close>, \<open>\<dots>\<close>, \<open>1000 * 10^18\<close>; hence the read-only
  lifetime test \<^verbatim>\<open>totalClaimed[A] >= MAX_CLAIM_AMOUNT\<close> and the mutating test
  \<^verbatim>\<open>totalClaimed[A] + FAUCET_AMOUNT > MAX_CLAIM_AMOUNT\<close> coincide.
\<close>

theorem totalClaimed_multiple_of_FAUCET_AMOUNT:
  "reachable s \<Longrightarrow>
     (\<exists>k\<le>10. unat (totalClaimed (faucet s) a) = k * unat FAUCET_AMOUNT) \<and>
     unat (totalClaimed (faucet s) a) mod unat FAUCET_AMOUNT = 0 \<and>
     ((MAX_CLAIM_AMOUNT \<le> totalClaimed (faucet s) a) =
        (unat MAX_CLAIM_AMOUNT < unat (totalClaimed (faucet s) a) + unat FAUCET_AMOUNT))"
proof -
  assume r: "reachable s"
  obtain k where k: "k \<le> 10" "unat (totalClaimed (faucet s) a) = k * (100 * 10 ^ 18)"
    using reachable_totalClaimed_steps[OF r] by blast
  have 1: "\<exists>k\<le>10. unat (totalClaimed (faucet s) a) = k * unat FAUCET_AMOUNT"
    using k unfolding unat_FAUCET_AMOUNT by blast
  have 2: "unat (totalClaimed (faucet s) a) mod unat FAUCET_AMOUNT = 0"
    unfolding unat_FAUCET_AMOUNT k(2) by simp
  show ?thesis
    using 1 2 lifetime_tests_agree[OF r, of a] by blast
qed

theorem totalClaimed_multiple_of_FAUCET_AMOUNT_witness:
  "reachable claimed_world \<and>
   unat (totalClaimed (faucet claimed_world) alice) = 1 * unat FAUCET_AMOUNT \<and>
   unat (totalClaimed (faucet claimed_world) alice) mod unat FAUCET_AMOUNT = 0 \<and>
   \<not> MAX_CLAIM_AMOUNT \<le> totalClaimed (faucet claimed_world) alice \<and>
   \<not> unat MAX_CLAIM_AMOUNT
        < unat (totalClaimed (faucet claimed_world) alice) + unat FAUCET_AMOUNT"
  using totalClaimed_multiple_of_FAUCET_AMOUNT[OF reachable_claimed_world, of alice]
    reachable_claimed_world
  by (simp add: claimed_world_eq unat_consts)

section \<open>The remaining allowance\<close>

lemma remainingAllowance_reachable:
  assumes "reachable s"
  shows "remainingAllowance s a = Inr (MAX_CLAIM_AMOUNT - totalClaimed (faucet s) a)"
    and "unat (MAX_CLAIM_AMOUNT - totalClaimed (faucet s) a)
           = unat MAX_CLAIM_AMOUNT - unat (totalClaimed (faucet s) a)"
    and "unat (totalClaimed (faucet s) a) \<le> unat MAX_CLAIM_AMOUNT"
proof -
  obtain k where k: "k \<le> 10" "unat (totalClaimed (faucet s) a) = k * (100 * 10 ^ 18)"
    using reachable_totalClaimed_steps[OF assms] by blast
  then show le: "unat (totalClaimed (faucet s) a) \<le> unat MAX_CLAIM_AMOUNT"
    by (simp add: unat_consts)
  then have wle: "totalClaimed (faucet s) a \<le> MAX_CLAIM_AMOUNT"
    by (simp add: word_le_nat_alt)
  show "unat (MAX_CLAIM_AMOUNT - totalClaimed (faucet s) a)
           = unat MAX_CLAIM_AMOUNT - unat (totalClaimed (faucet s) a)"
    using wle by (rule unat_sub)
  show "remainingAllowance s a = Inr (MAX_CLAIM_AMOUNT - totalClaimed (faucet s) a)"
    using le by (simp add: remainingAllowance_def checked_sub_def word_neq_0_conv[symmetric])
qed

text \<open>
  C7. On every reachable world the read \<^verbatim>\<open>remainingAllowance(A)\<close> does not fail and returns
  \<open>max(0, MAX_CLAIM_AMOUNT - totalClaimed[A])\<close>; as a view it returns a value and no new
  world. It is \<^verbatim>\<open>MAX_CLAIM_AMOUNT\<close> for an account with nothing claimed, it is smaller by
  \<^verbatim>\<open>FAUCET_AMOUNT\<close> after each successful claim, and it is \<open>0\<close> once the lifetime limit is
  reached.
\<close>

theorem remainingAllowance_value:
  "reachable s \<Longrightarrow>
     (\<exists>r. remainingAllowance s a = Inr r \<and>
          int (unat r) = max 0 (int (unat MAX_CLAIM_AMOUNT) - int (unat (totalClaimed (faucet s) a)))) \<and>
     (totalClaimed (faucet s) a = 0 \<longrightarrow> remainingAllowance s a = Inr MAX_CLAIM_AMOUNT) \<and>
     (\<forall>t s'. requestTokens s a t = Inr s' \<longrightarrow>
        (\<exists>r r'. remainingAllowance s a = Inr r \<and> remainingAllowance s' a = Inr r' \<and>
                 unat r' + unat FAUCET_AMOUNT = unat r)) \<and>
     (unat MAX_CLAIM_AMOUNT < unat (totalClaimed (faucet s) a) + unat FAUCET_AMOUNT
        \<longrightarrow> remainingAllowance s a = Inr 0)"
proof -
  assume r: "reachable s"
  note ra = remainingAllowance_reachable[OF r, of a]
  have "int (unat (MAX_CLAIM_AMOUNT - totalClaimed (faucet s) a))
      = max 0 (int (unat MAX_CLAIM_AMOUNT) - int (unat (totalClaimed (faucet s) a)))"
    using ra(2,3) by linarith
  then have 1: "\<exists>r. remainingAllowance s a = Inr r \<and>
      int (unat r) = max 0 (int (unat MAX_CLAIM_AMOUNT) - int (unat (totalClaimed (faucet s) a)))"
    using ra(1) by blast
  have 2: "totalClaimed (faucet s) a = 0 \<longrightarrow> remainingAllowance s a = Inr MAX_CLAIM_AMOUNT"
    using ra(1) by simp
  have 3: "\<exists>r r'. remainingAllowance s a = Inr r \<and> remainingAllowance s' a = Inr r' \<and>
                 unat r' + unat FAUCET_AMOUNT = unat r"
    if ok: "requestTokens s a t = Inr s'" for t s'
  proof -
    have "transact s (a, t, RequestTokens) = s'"
      using ok by (simp add: transact_def)
    then have r': "reachable s'"
      using reachable.step[OF r, of "(a, t, RequestTokens)"] by simp
    note ra' = remainingAllowance_reachable[OF r', of a]
    have room: "unat (totalClaimed (faucet s) a) + 100 * 10 ^ 18 \<le> 1000 * 10 ^ 18"
      and eq: "totalClaimed (faucet s') a = totalClaimed (faucet s) a + FAUCET_AMOUNT"
      using ok by (simp_all add: requestTokens_Inr)
    have "unat (totalClaimed (faucet s') a) = unat (totalClaimed (faucet s) a) + unat FAUCET_AMOUNT"
      using room by (simp add: eq unat_add_no_overflow unat_consts)
    then have "unat (MAX_CLAIM_AMOUNT - totalClaimed (faucet s') a) + unat FAUCET_AMOUNT
        = unat (MAX_CLAIM_AMOUNT - totalClaimed (faucet s) a)"
      using ra(2) ra'(2) room by (simp add: unat_consts)
    then show ?thesis
      using ra(1) ra'(1) by simp
  qed
  have 4: "unat MAX_CLAIM_AMOUNT < unat (totalClaimed (faucet s) a) + unat FAUCET_AMOUNT
        \<longrightarrow> remainingAllowance s a = Inr 0"
  proof
    assume "unat MAX_CLAIM_AMOUNT < unat (totalClaimed (faucet s) a) + unat FAUCET_AMOUNT"
    then have "MAX_CLAIM_AMOUNT \<le> totalClaimed (faucet s) a"
      using lifetime_tests_agree[OF r, of a] by simp
    then have "totalClaimed (faucet s) a = MAX_CLAIM_AMOUNT"
      using ra(3) by (simp add: word_le_nat_alt word_unat_eq_iff)
    then show "remainingAllowance s a = Inr 0"
      using ra(1) by simp
  qed
  show ?thesis
    using 1 2 3 4 by blast
qed

text \<open>
  C7 at the wired deployment, where \<open>alice\<close> has claimed nothing, after her first claim, and
  after her tenth.
\<close>

theorem remainingAllowance_value_witness:
  "reachable wired_world \<and> totalClaimed (faucet wired_world) alice = 0 \<and>
   remainingAllowance wired_world alice = Inr MAX_CLAIM_AMOUNT \<and>
   requestTokens wired_world alice (day 1) = Inr claimed_world \<and>
   remainingAllowance claimed_world alice = Inr (900 * 10 ^ 18) \<and>
   reachable exhausted_world \<and>
   unat MAX_CLAIM_AMOUNT
     < unat (totalClaimed (faucet exhausted_world) alice) + unat FAUCET_AMOUNT \<and>
   remainingAllowance exhausted_world alice = Inr 0"
proof -
  have c: "requestTokens wired_world alice (day 1) = Inr claimed_world"
    using first_claim by (simp add: claimed_world_eq day_def)
  have m: "remainingAllowance wired_world alice = Inr MAX_CLAIM_AMOUNT"
    using remainingAllowance_value[OF reachable_wired_world, of alice]
    by (simp add: wired_world_simps)
  have "\<exists>r r'. remainingAllowance wired_world alice = Inr r \<and>
      remainingAllowance claimed_world alice = Inr r' \<and> unat r' + unat FAUCET_AMOUNT = unat r"
    using remainingAllowance_value[OF reachable_wired_world, of alice] c by blast
  then obtain r' where r': "remainingAllowance claimed_world alice = Inr r'"
      "unat r' + unat FAUCET_AMOUNT = unat MAX_CLAIM_AMOUNT"
    using m by auto
  have "r' = (900 * 10 ^ 18 :: uint256)"
    using r'(2) by (intro word_unat_eq_iff[THEN iffD2]) (simp add: unat_consts)
  then have n: "remainingAllowance claimed_world alice = Inr (900 * 10 ^ 18)"
    using r'(1) by simp
  have z: "remainingAllowance exhausted_world alice = Inr 0"
    using remainingAllowance_value[OF reachable_exhausted_world, of alice]
    by (simp add: exhausted_world_simps unat_consts)
  show ?thesis
    using reachable_wired_world reachable_exhausted_world c m n z
    by (simp add: wired_world_simps exhausted_world_simps unat_consts)
qed

section \<open>The pause switch\<close>

text \<open>
  C8. \<^verbatim>\<open>setPaused(v)\<close> called by the stored admin overwrites the flag with \<open>v\<close> and emits
  \<^verbatim>\<open>FaucetPaused(v)\<close> whatever the flag was, so that two calls of \<^verbatim>\<open>setPaused(true)\<close> leave
  \<^verbatim>\<open>isPaused()\<close> true and add two events; called by any other account it fails with
  ``Only admin can pause faucet'' and the flag stays as it was.
\<close>

theorem setPaused_admin_only:
  "(c = admin (faucet s) \<longrightarrow>
      setPaused s c v = Inr (s\<lparr>faucet := (faucet s)\<lparr>paused := v\<rparr>,
                               events := events s @ [FaucetPaused v]\<rparr>) \<and>
      isPaused (transact s (c, t, SetPaused v)) = v \<and>
      isPaused (run s [(c, t, SetPaused True), (c, t', SetPaused True)]) \<and>
      events (run s [(c, t, SetPaused True), (c, t', SetPaused True)])
        = events s @ [FaucetPaused True, FaucetPaused True]) \<and>
   (c \<noteq> admin (faucet s) \<longrightarrow>
      setPaused s c v = Inl E_Unauthorized_pause \<and>
      transact s (c, t, SetPaused v) = s \<and>
      isPaused (transact s (c, t, SetPaused v)) = isPaused s)"
  by (simp add: setPaused_def transact_def run_def isPaused_def)

text \<open>
  C8 at the wired deployment: the admin pauses twice, and \<open>alice\<close>, who is not the admin, is
  refused.
\<close>

theorem setPaused_admin_only_witness:
  "deployer = admin (faucet wired_world) \<and>
   isPaused (run wired_world [(deployer, 10, SetPaused True), (deployer, 20, SetPaused True)]) \<and>
   events (run wired_world [(deployer, 10, SetPaused True), (deployer, 20, SetPaused True)])
     = [FaucetPaused True, FaucetPaused True] \<and>
   alice \<noteq> admin (faucet wired_world) \<and>
   setPaused wired_world alice True = Inl E_Unauthorized_pause \<and>
   isPaused (transact wired_world (alice, 10, SetPaused True)) = False"
proof -
  have a: "alice \<noteq> admin (faucet wired_world)"
    by (simp add: wired_world_simps alice_def deployer_def)
  have e: "events wired_world = []" "isPaused wired_world = False"
    by (simp_all add: wired_world_def isPaused_def)
  show ?thesis
    using setPaused_admin_only[of deployer wired_world True 10 20]
      setPaused_admin_only[of alice wired_world True 10 20] a e
    by (simp add: wired_world_simps)
qed

section \<open>The claim record only grows\<close>

lemma transact_claim_record:
  "(lastClaimAt (faucet (transact s x)) a = lastClaimAt (faucet s) a \<and>
    totalClaimed (faucet (transact s x)) a = totalClaimed (faucet s) a) \<or>
   (\<exists>t s'. x = (a, t, RequestTokens) \<and> requestTokens s a t = Inr s' \<and> transact s x = s')"
proof -
  obtain c now k where x: "x = (c, now, k)" by (cases x)
  show ?thesis
    unfolding x
    by (cases k)
       (auto simp: transact_def requestTokens_Inr setPaused_Inr mint_Inr setMinter_Inr
          ERC20_mint_def split: sum.splits)
qed

lemma claim_grows_record:
  assumes "requestTokens s a t = Inr s'"
  shows "unat (lastClaimAt (faucet s) a) < unat (lastClaimAt (faucet s') a)"
    and "unat (totalClaimed (faucet s') a) = unat (totalClaimed (faucet s) a) + unat FAUCET_AMOUNT"
    and "lastClaimAt (faucet s') a = block_timestamp t"
proof -
  have c: "unat (lastClaimAt (faucet s) a) + 86400 \<le> unat t"
    "unat (totalClaimed (faucet s) a) + 100 * 10 ^ 18 \<le> 1000 * 10 ^ 18"
    "totalClaimed (faucet s') a = totalClaimed (faucet s) a + FAUCET_AMOUNT"
    and l: "lastClaimAt (faucet s') a = block_timestamp t"
    using assms by (simp_all add: requestTokens_Inr)
  show "lastClaimAt (faucet s') a = block_timestamp t" by (rule l)
  show "unat (lastClaimAt (faucet s) a) < unat (lastClaimAt (faucet s') a)"
    using c(1) by (simp add: l unat_block_timestamp)
  show "unat (totalClaimed (faucet s') a) = unat (totalClaimed (faucet s) a) + unat FAUCET_AMOUNT"
    using c(2) by (simp add: c(3) unat_add_no_overflow unat_consts)
qed

lemma transact_record_mono:
  "unat (lastClaimAt (faucet s) a) \<le> unat (lastClaimAt (faucet (transact s x)) a) \<and>
   unat (totalClaimed (faucet s) a) \<le> unat (totalClaimed (faucet (transact s x)) a)"
  using transact_claim_record[of s x a] claim_grows_record(1,2)[of s a]
  by (auto simp: less_imp_le)

lemma run_record_mono:
  "unat (lastClaimAt (faucet s) a) \<le> unat (lastClaimAt (faucet (run s ts)) a) \<and>
   unat (totalClaimed (faucet s) a) \<le> unat (totalClaimed (faucet (run s ts)) a)"
proof (induction ts arbitrary: s)
  case Nil
  show ?case by (simp add: run_Nil)
next
  case (Cons x ts)
  show ?case
    using transact_record_mono[of s a x] Cons.IH[of "transact s x"]
    by (simp add: run_Cons)
qed

lemma run_without_claims:
  "\<forall>t. (a, t, RequestTokens) \<notin> set ts \<Longrightarrow>
     lastClaimAt (faucet (run s ts)) a = lastClaimAt (faucet s) a \<and>
     totalClaimed (faucet (run s ts)) a = totalClaimed (faucet s) a"
proof (induction ts arbitrary: s)
  case Nil
  show ?case by (simp add: run_Nil)
next
  case (Cons x ts)
  have "\<forall>t. x \<noteq> (a, t, RequestTokens)" using Cons.prems by auto
  then have "lastClaimAt (faucet (transact s x)) a = lastClaimAt (faucet s) a \<and>
    totalClaimed (faucet (transact s x)) a = totalClaimed (faucet s) a"
    using transact_claim_record[of s x a] by blast
  moreover have "\<forall>t. (a, t, RequestTokens) \<notin> set ts" using Cons.prems by auto
  ultimately show ?case
    using Cons.IH[of "transact s x"] by (simp add: run_Cons)
qed

lemma deploy_record_zero:
  "deploy d1 m d2 ta fa = Inr s \<Longrightarrow>
     lastClaimAt (faucet s) a = 0 \<and> totalClaimed (faucet s) a = 0"
  by (auto simp: deploy_def Token_constructor_def TokenFaucet_constructor_def
        split: sum.splits if_splits)

text \<open>
  C9. \<^verbatim>\<open>lastClaimAt[A]\<close> is strictly increased by each successful claim of \<open>A\<close> and no other
  transaction changes it (nor \<^verbatim>\<open>totalClaimed[A]\<close>); over every sequence of transactions
  \<^verbatim>\<open>totalClaimed[A]\<close> never decreases (nor does \<^verbatim>\<open>lastClaimAt[A]\<close>); both are zero at
  deployment and stay zero as long as \<open>A\<close> has sent no claim.
\<close>

theorem claim_record_monotone:
  "(\<forall>t s'. requestTokens s a t = Inr s' \<longrightarrow>
      unat (lastClaimAt (faucet s) a) < unat (lastClaimAt (faucet s') a)) \<and>
   (\<forall>x. lastClaimAt (faucet (transact s x)) a \<noteq> lastClaimAt (faucet s) a \<or>
        totalClaimed (faucet (transact s x)) a \<noteq> totalClaimed (faucet s) a \<longrightarrow>
        (\<exists>t s'. x = (a, t, RequestTokens) \<and> requestTokens s a t = Inr s')) \<and>
   (\<forall>ts. unat (totalClaimed (faucet s) a) \<le> unat (totalClaimed (faucet (run s ts)) a) \<and>
         unat (lastClaimAt (faucet s) a) \<le> unat (lastClaimAt (faucet (run s ts)) a)) \<and>
   (\<forall>d1 m d2 ta fa s0 ts.
      deploy d1 m d2 ta fa = Inr s0 \<and> (\<forall>t. (a, t, RequestTokens) \<notin> set ts) \<longrightarrow>
      lastClaimAt (faucet (run s0 ts)) a = 0 \<and> totalClaimed (faucet (run s0 ts)) a = 0)"
proof -
  have 1: "\<forall>t s'. requestTokens s a t = Inr s' \<longrightarrow>
      unat (lastClaimAt (faucet s) a) < unat (lastClaimAt (faucet s') a)"
    using claim_grows_record(1) by blast
  have 2: "\<forall>x. lastClaimAt (faucet (transact s x)) a \<noteq> lastClaimAt (faucet s) a \<or>
        totalClaimed (faucet (transact s x)) a \<noteq> totalClaimed (faucet s) a \<longrightarrow>
        (\<exists>t s'. x = (a, t, RequestTokens) \<and> requestTokens s a t = Inr s')"
    using transact_claim_record[of s _ a] by blast
  have 3: "\<forall>ts. unat (totalClaimed (faucet s) a) \<le> unat (totalClaimed (faucet (run s ts)) a) \<and>
         unat (lastClaimAt (faucet s) a) \<le> unat (lastClaimAt (faucet (run s ts)) a)"
    using run_record_mono[of s a] by blast
  have 4: "\<forall>d1 m d2 ta fa s0 ts.
      deploy d1 m d2 ta fa = Inr s0 \<and> (\<forall>t. (a, t, RequestTokens) \<notin> set ts) \<longrightarrow>
      lastClaimAt (faucet (run s0 ts)) a = 0 \<and> totalClaimed (faucet (run s0 ts)) a = 0"
    using run_without_claims[of a] deploy_record_zero[of _ _ _ _ _ _ a] by metis
  show ?thesis
    using 1 2 3 4 by blast
qed

text \<open>
  C9 at the wired deployment: the first claim of \<open>alice\<close> raises \<^verbatim>\<open>lastClaimAt[alice]\<close> and
  does not lower \<^verbatim>\<open>totalClaimed[alice]\<close>; a pause by the admin leaves \<^verbatim>\<open>lastClaimAt[alice]\<close>
  as it is; \<open>bob\<close>, who sent no claim, keeps zeros.
\<close>

theorem claim_record_monotone_witness:
  "requestTokens wired_world alice (day 1) = Inr claimed_world \<and>
   unat (lastClaimAt (faucet wired_world) alice) < unat (lastClaimAt (faucet claimed_world) alice) \<and>
   lastClaimAt (faucet (transact claimed_world (deployer, day 1, SetPaused True))) alice
     = lastClaimAt (faucet claimed_world) alice \<and>
   unat (totalClaimed (faucet wired_world) alice)
     \<le> unat (totalClaimed (faucet (run wired_world [(alice, day 1, RequestTokens)])) alice) \<and>
   deploy deployer faucet_address deployer token_address faucet_address = Inr wired_world \<and>
   lastClaimAt (faucet (run wired_world [(alice, day 1, RequestTokens)])) bob = 0 \<and>
   totalClaimed (faucet (run wired_world [(alice, day 1, RequestTokens)])) bob = 0"
proof -
  have c: "requestTokens wired_world alice (day 1) = Inr claimed_world"
    using first_claim by (simp add: claimed_world_eq day_def)
  have nb: "\<forall>t. (bob, t, RequestTokens) \<notin> set [(alice, day 1, RequestTokens)]"
    by (simp add: alice_def bob_def)
  have p: "\<not> (\<exists>t s'. (deployer, day 1, SetPaused True) = (alice, t, RequestTokens) \<and>
      requestTokens claimed_world alice t = Inr s')"
    by simp
  note w = claim_record_monotone[of wired_world alice]
  note b = claim_record_monotone[of wired_world bob]
  note q = claim_record_monotone[of claimed_world alice]
  have 1: "unat (lastClaimAt (faucet wired_world) alice)
      < unat (lastClaimAt (faucet claimed_world) alice)"
    using w c by blast
  have 2: "lastClaimAt (faucet (transact claimed_world (deployer, day 1, SetPaused True))) alice
     = lastClaimAt (faucet claimed_world) alice"
    using q p by blast
  have 3: "unat (totalClaimed (faucet wired_world) alice)
     \<le> unat (totalClaimed (faucet (run wired_world [(alice, day 1, RequestTokens)])) alice)"
    using w by blast
  have 4: "lastClaimAt (faucet (run wired_world [(alice, day 1, RequestTokens)])) bob = 0 \<and>
   totalClaimed (faucet (run wired_world [(alice, day 1, RequestTokens)])) bob = 0"
    using b deploy_wired_world nb by blast
  show ?thesis
    using c 1 2 3 4 deploy_wired_world by blast
qed

section \<open>A successful claim and the cooldown it starts\<close>

lemma reachable_after_claim:
  "reachable s \<Longrightarrow> requestTokens s a t = Inr s' \<Longrightarrow> reachable (run s' ts)"
proof -
  assume r: "reachable s" and ok: "requestTokens s a t = Inr s'"
  have "transact s (a, t, RequestTokens) = s'"
    using ok by (simp add: transact_def)
  then have "reachable s'"
    using reachable.step[OF r, of "(a, t, RequestTokens)"] by simp
  then show ?thesis by (rule reachable_run)
qed

lemma mint_never_cooldown: "mint s c to amount \<noteq> Inl E_CooldownActive"
  using mint_Inl[of s c to amount E_CooldownActive] by (auto split: if_splits)

text \<open>
  C5, as amended. After a successful \<^verbatim>\<open>requestTokens()\<close> of \<open>A\<close> at time \<open>T\<close> on a reachable
  world: \<^verbatim>\<open>lastClaimAt[A] = T\<close>; \<^verbatim>\<open>totalClaimed[A]\<close> and the token balance of \<open>A\<close> are larger by
  exactly \<^verbatim>\<open>FAUCET_AMOUNT\<close>; the log ends with the token's \<^verbatim>\<open>Transfer(0, A, FAUCET_AMOUNT)\<close> and
  \<^verbatim>\<open>TokensClaimed(A, FAUCET_AMOUNT, T)\<close>; an attempt of \<open>A\<close> right after the claim at a time
  before \<open>T + COOLDOWN_TIME\<close> fails with \<^verbatim>\<open>CooldownActive\<close>; after any further transactions
  such an attempt still fails, with \<^verbatim>\<open>CooldownActive\<close> while the faucet is not paused and
  with \<^verbatim>\<open>FaucetPaused\<close> when it has been paused meanwhile; an attempt at exactly
  \<open>T + COOLDOWN_TIME\<close> is not refused for the cooldown.
\<close>

theorem claim_effect_and_cooldown:
  "reachable s \<Longrightarrow> requestTokens s a t = Inr s' \<Longrightarrow>
     lastClaimAt (faucet s') a = block_timestamp t \<and>
     unat (totalClaimed (faucet s') a) = unat (totalClaimed (faucet s) a) + unat FAUCET_AMOUNT \<and>
     unat (balances (token s') a) = unat (balances (token s) a) + unat FAUCET_AMOUNT \<and>
     events s' = events s @ [Transfer 0 a FAUCET_AMOUNT,
                             TokensClaimed a FAUCET_AMOUNT (block_timestamp t)] \<and>
     (\<forall>t'. unat t' < unat t + unat COOLDOWN_TIME \<longrightarrow>
        requestTokens s' a t' = Inl E_CooldownActive) \<and>
     (\<forall>ts t'. unat t' < unat t + unat COOLDOWN_TIME \<longrightarrow>
        requestTokens (run s' ts) a t' =
          (if paused (faucet (run s' ts)) then Inl E_FaucetPaused else Inl E_CooldownActive)) \<and>
     (\<forall>t'. unat t' = unat t + unat COOLDOWN_TIME \<longrightarrow>
        requestTokens s' a t' \<noteq> Inl E_CooldownActive)"
proof -
  assume r: "reachable s" and ok: "requestTokens s a t = Inr s'"
  note g = claim_grows_record[OF ok]
  have last: "unat (lastClaimAt (faucet s') a) = unat t"
    by (simp add: g(3) unat_block_timestamp)
  have np: "\<not> paused (faucet s')"
    using ok by (simp add: requestTokens_Inr)
  have room: "unat (totalSupply (token s)) + unat FAUCET_AMOUNT \<le> unat MAX_SUPPLY"
    and tok: "token s' = (token s)
          \<lparr>balances := (balances (token s))(a := balances (token s) a + FAUCET_AMOUNT),
           totalSupply := totalSupply (token s) + FAUCET_AMOUNT\<rparr>"
    and ev: "events s' = events s @ [Transfer 0 a FAUCET_AMOUNT,
                             TokensClaimed a FAUCET_AMOUNT (block_timestamp t)]"
    using ok by (simp_all add: requestTokens_Inr unat_consts)
  have bal: "unat (balances (token s') a) = unat (balances (token s) a) + unat FAUCET_AMOUNT"
    using credit_keeps_supply(3)[OF reachable_supply[OF r, THEN conjunct1] room tok] .
  have later: "requestTokens (run s' ts) a t' =
      (if paused (faucet (run s' ts)) then Inl E_FaucetPaused else Inl E_CooldownActive)"
    if early: "unat t' < unat t + unat COOLDOWN_TIME" for ts t'
  proof -
    have "unat (lastClaimAt (faucet s') a) \<le> unat (lastClaimAt (faucet (run s' ts)) a)"
      using run_record_mono[of s' a ts] by simp
    then have "unat t' < unat (lastClaimAt (faucet (run s' ts)) a) + 86400"
      using early last by (simp add: unat_consts)
    then show ?thesis
      by (simp add: requestTokens_reachable[OF reachable_after_claim[OF r ok]])
  qed
  have now: "requestTokens s' a t' = Inl E_CooldownActive"
    if early: "unat t' < unat t + unat COOLDOWN_TIME" for t'
    using later[OF early, of "[]"] np by (simp add: run_Nil)
  have exact: "requestTokens s' a t' \<noteq> Inl E_CooldownActive"
    if at: "unat t' = unat t + unat COOLDOWN_TIME" for t'
  proof -
    have "\<not> unat t' < unat (lastClaimAt (faucet s') a) + 86400"
      using at last by (simp add: unat_consts)
    then show ?thesis
      using np mint_never_cooldown[of s' "this_faucet s'" a FAUCET_AMOUNT]
        reachable_after_claim[OF r ok, of "[]"]
      by (auto simp: requestTokens_reachable run_Nil split: sum.splits)
  qed
  show ?thesis
    using g(2,3) bal ev now later exact by blast
qed

text \<open>
  The amended C5 at the wired deployment: \<open>alice\<close> claims on day 1; one second later her
  attempt fails with \<^verbatim>\<open>CooldownActive\<close>, and with \<^verbatim>\<open>FaucetPaused\<close> once the admin has paused;
  on day 2 her attempt is not refused for the cooldown.
\<close>

theorem claim_effect_and_cooldown_witness:
  "reachable wired_world \<and> requestTokens wired_world alice 86400 = Inr claimed_world \<and>
   lastClaimAt (faucet claimed_world) alice = 86400 \<and>
   totalClaimed (faucet claimed_world) alice = FAUCET_AMOUNT \<and>
   balances (token claimed_world) alice = FAUCET_AMOUNT \<and>
   events claimed_world = [Transfer 0 alice FAUCET_AMOUNT, TokensClaimed alice FAUCET_AMOUNT 86400] \<and>
   requestTokens claimed_world alice 86401 = Inl E_CooldownActive \<and>
   requestTokens (run claimed_world [(deployer, 86400, SetPaused True)]) alice 86401
     = Inl E_FaucetPaused \<and>
   requestTokens claimed_world alice 172800 \<noteq> Inl E_CooldownActive"
proof -
  have c: "requestTokens wired_world alice 86400 = Inr claimed_world"
    using first_claim by (simp add: claimed_world_eq)
  have p: "paused (faucet (run claimed_world [(deployer, 86400, SetPaused True)]))"
    by (simp add: run_def transact_def setPaused_def claimed_world_eq wired_world_def)
  note th = claim_effect_and_cooldown[OF reachable_wired_world c]
  have 1: "requestTokens claimed_world alice 86401 = Inl E_CooldownActive"
    using th by (simp add: unat_consts)
  have 2: "requestTokens (run claimed_world [(deployer, 86400, SetPaused True)]) alice 86401
     = Inl E_FaucetPaused"
  proof -
    have "unat (86401 :: timestamp) < unat (86400 :: timestamp) + unat COOLDOWN_TIME"
      by (simp add: unat_consts)
    then have "requestTokens (run claimed_world [(deployer, 86400, SetPaused True)]) alice 86401
      = (if paused (faucet (run claimed_world [(deployer, 86400, SetPaused True)]))
         then Inl E_FaucetPaused else Inl E_CooldownActive)"
      using th by blast
    then show ?thesis using p by simp
  qed
  have 3: "requestTokens claimed_world alice 172800 \<noteq> Inl E_CooldownActive"
    using th by (simp add: unat_consts)
  show ?thesis
    using reachable_wired_world c 1 2 3
    by (simp add: claimed_world_eq wired_world_def)
qed

text \<open>
  C5 as stated fails when the admin pauses the faucet after the claim: the attempt of
  \<open>alice\<close> one second after her claim, within the cooldown, is refused with
  \<^verbatim>\<open>FaucetPaused\<close>, not with \<^verbatim>\<open>CooldownActive\<close>.
\<close>

theorem paused_attempt_within_cooldown:
  "requestTokens wired_world alice 86400 = Inr claimed_world \<and>
   unat (86401 :: timestamp) < unat (86400 :: timestamp) + unat COOLDOWN_TIME \<and>
   requestTokens (transact claimed_world (deployer, 86400, SetPaused True)) alice 86401
     = Inl E_FaucetPaused \<and>
   requestTokens (transact claimed_world (deployer, 86400, SetPaused True)) alice 86401
     \<noteq> Inl E_CooldownActive"
proof -
  have c: "requestTokens wired_world alice 86400 = Inr claimed_world"
    using first_claim by (simp add: claimed_world_eq)
  have "requestTokens (transact claimed_world (deployer, 86400, SetPaused True)) alice 86401
     = Inl E_FaucetPaused"
    by (rule requestTokens_paused)
       (simp_all add: transact_def setPaused_def claimed_world_eq wired_world_def)
  then show ?thesis
    using c by (simp add: unat_consts)
qed

section \<open>Minting\<close>

lemma unat_UINT256_MAX: "unat UINT256_MAX = 2 ^ 256 - 1"
  by (simp add: UINT256_MAX_def unsigned_minus_1_eq_mask mask_eq_exp_minus_1)

lemma handed_over_world_eq:
  "handed_over_world = transact claimed_world (deployer, 86400, SetMinter bob)"
  by (simp add: handed_over_world_def run_def claimed_world_def day_def)

lemma handed_over_world_simps:
  "minter (token handed_over_world) = bob"
  "totalSupply (token handed_over_world) = FAUCET_AMOUNT"
  by (simp_all add: handed_over_world_eq transact_def setMinter_def onlyOwner_def claimed_world_eq
        wired_world_def bob_def)

lemma reachable_handed_over_world: "reachable handed_over_world"
  unfolding handed_over_world_def by (rule reachable_run[OF reachable_wired_world])

text \<open>
  C6, as amended. \<^verbatim>\<open>mint(to, amount)\<close> fails with ``Only minter can mint tokens'' if the
  caller is not the minter, else with ``Cannot mint to zero address'' if \<open>to\<close> is the null
  account, else with an arithmetic panic if \<open>totalSupply + amount\<close> does not fit in 256 bits,
  else with ``Exceeds maximum supply'' if \<open>totalSupply + amount > MAX_SUPPLY\<close>; otherwise it
  succeeds, credits \<open>to\<close> by \<open>amount\<close>, leaves the other balances, raises the total supply by
  \<open>amount\<close> and emits \<^verbatim>\<open>Transfer(0, to, amount)\<close>. On every reachable world, hence after any
  sequence of calls, the balances sum to the total supply, which is at most \<^verbatim>\<open>MAX_SUPPLY\<close>.
\<close>

theorem mint_outcome:
  "mint s c to amount =
     (if c \<noteq> minter (token s) then Inl E_Unauthorized_mint
      else if to = 0 then Inl E_ZeroAddress_mint
      else if 2 ^ 256 \<le> unat (totalSupply (token s)) + unat amount then Inl Panic
      else if unat MAX_SUPPLY < unat (totalSupply (token s)) + unat amount
        then Inl E_SupplyExceeded
      else Inr (ERC20_mint s to amount)) \<and>
   (reachable s \<longrightarrow>
      (\<forall>s'. mint s c to amount = Inr s' \<longrightarrow>
         unat (balances (token s') to) = unat (balances (token s) to) + unat amount \<and>
         (\<forall>b. b \<noteq> to \<longrightarrow> balances (token s') b = balances (token s) b) \<and>
         unat (totalSupply (token s')) = unat (totalSupply (token s)) + unat amount \<and>
         events s' = events s @ [Transfer 0 to amount])) \<and>
   (reachable s \<longrightarrow>
      (\<forall>ts. sum_balances (run s ts) = unat (totalSupply (token (run s ts))) \<and>
            sum_balances (run s ts) \<le> unat MAX_SUPPLY))"
proof -
  have 1: "mint s c to amount =
     (if c \<noteq> minter (token s) then Inl E_Unauthorized_mint
      else if to = 0 then Inl E_ZeroAddress_mint
      else if 2 ^ 256 \<le> unat (totalSupply (token s)) + unat amount then Inl Panic
      else if unat MAX_SUPPLY < unat (totalSupply (token s)) + unat amount
        then Inl E_SupplyExceeded
      else Inr (ERC20_mint s to amount))"
    by (simp add: mint_def checked_add_def word_le_nat_alt unat_add_no_overflow not_less)
  have 2: "unat (balances (token s') to) = unat (balances (token s) to) + unat amount \<and>
         (\<forall>b. b \<noteq> to \<longrightarrow> balances (token s') b = balances (token s) b) \<and>
         unat (totalSupply (token s')) = unat (totalSupply (token s)) + unat amount \<and>
         events s' = events s @ [Transfer 0 to amount]"
    if r: "reachable s" and ok: "mint s c to amount = Inr s'" for s'
  proof -
    have room: "unat (totalSupply (token s)) + unat amount \<le> unat MAX_SUPPLY"
      and s': "s' = ERC20_mint s to amount"
      using ok by (simp_all add: mint_Inr)
    have tok: "token s' = (token s)
          \<lparr>balances := (balances (token s))(to := balances (token s) to + amount),
           totalSupply := totalSupply (token s) + amount\<rparr>"
      by (simp add: s' ERC20_mint_def)
    note k = credit_keeps_supply[OF reachable_supply[OF r, THEN conjunct1] room tok]
    show ?thesis
      using k(2,3) by (simp add: s' ERC20_mint_def)
  qed
  have 3: "sum_balances (run s ts) = unat (totalSupply (token (run s ts))) \<and>
            sum_balances (run s ts) \<le> unat MAX_SUPPLY"
    if r: "reachable s" for ts
    using reachable_supply[OF reachable_run[OF r, of ts]] by simp
  show ?thesis
    using 1 2 3 by blast
qed

text \<open>
  The amended C6 at the wired deployment: the faucet, being the minter, mints
  \<^verbatim>\<open>FAUCET_AMOUNT\<close> to \<open>alice\<close>; \<open>alice\<close> herself is refused; nothing has been issued yet.
\<close>

theorem mint_outcome_witness:
  "reachable wired_world \<and>
   mint wired_world faucet_address alice FAUCET_AMOUNT
     = Inr (ERC20_mint wired_world alice FAUCET_AMOUNT) \<and>
   unat (balances (token (ERC20_mint wired_world alice FAUCET_AMOUNT)) alice)
     = unat (balances (token wired_world) alice) + unat FAUCET_AMOUNT \<and>
   unat (totalSupply (token (ERC20_mint wired_world alice FAUCET_AMOUNT)))
     = unat (totalSupply (token wired_world)) + unat FAUCET_AMOUNT \<and>
   events (ERC20_mint wired_world alice FAUCET_AMOUNT) = [Transfer 0 alice FAUCET_AMOUNT] \<and>
   mint wired_world alice alice FAUCET_AMOUNT = Inl E_Unauthorized_mint \<and>
   sum_balances (run wired_world []) = 0"
proof -
  note th = mint_outcome[of wired_world faucet_address alice FAUCET_AMOUNT]
  have m: "mint wired_world faucet_address alice FAUCET_AMOUNT
     = Inr (ERC20_mint wired_world alice FAUCET_AMOUNT)"
    using th by (simp add: wired_world_def alice_def unat_consts)
  have e: "unat (balances (token (ERC20_mint wired_world alice FAUCET_AMOUNT)) alice)
     = unat (balances (token wired_world) alice) + unat FAUCET_AMOUNT \<and>
   unat (totalSupply (token (ERC20_mint wired_world alice FAUCET_AMOUNT)))
     = unat (totalSupply (token wired_world)) + unat FAUCET_AMOUNT \<and>
   events (ERC20_mint wired_world alice FAUCET_AMOUNT) = events wired_world @ [Transfer 0 alice FAUCET_AMOUNT]"
    using th m reachable_wired_world by blast
  have u: "mint wired_world alice alice FAUCET_AMOUNT = Inl E_Unauthorized_mint"
    using mint_outcome[of wired_world alice alice FAUCET_AMOUNT]
    by (simp add: wired_world_def alice_def faucet_address_def)
  have "sum_balances (run wired_world []) = unat (totalSupply (token (run wired_world [])))"
    using th reachable_wired_world by blast
  then have z: "sum_balances (run wired_world []) = 0"
    by (simp add: wired_world_simps run_Nil)
  show ?thesis
    using reachable_wired_world m e u z by (simp add: wired_world_def)
qed

text \<open>
  C6 as stated fails where \<open>totalSupply + amount\<close> overflows. After one claim of \<open>alice\<close> the
  supply is \<^verbatim>\<open>FAUCET_AMOUNT\<close>, and the owner has made \<open>bob\<close> the minter; \<open>bob\<close> calling
  \<^verbatim>\<open>mint(alice, 2^256 - 1)\<close> would exceed \<^verbatim>\<open>MAX_SUPPLY\<close>, yet the call does not fail with
  ``Exceeds maximum supply'': the checked addition in the \<^verbatim>\<open>require\<close> panics first.
\<close>

theorem mint_overflow_panics:
  "reachable handed_over_world \<and> bob = minter (token handed_over_world) \<and> alice \<noteq> 0 \<and>
   unat UINT256_MAX = 2 ^ 256 - 1 \<and>
   unat MAX_SUPPLY < unat (totalSupply (token handed_over_world)) + unat UINT256_MAX \<and>
   mint handed_over_world bob alice UINT256_MAX = Inl Panic \<and>
   mint handed_over_world bob alice UINT256_MAX \<noteq> Inl E_SupplyExceeded"
proof -
  have "mint handed_over_world bob alice UINT256_MAX = Inl Panic"
    by (simp add: mint_def checked_add_def handed_over_world_simps alice_nonzero
          unat_UINT256_MAX unat_consts)
  then show ?thesis
    using reachable_handed_over_world alice_nonzero unat_UINT256_MAX
    by (simp add: handed_over_world_simps unat_consts)
qed

end
